theory Spec2Isabelle
  imports Complex_Main "HOL-Library.Multiset"
begin

section \<open>Recurring transaction detector (src/services/recurring\_detector.py)\<close>

text \<open>
  Conventions of the embedding.
  \<^item> A Python \<open>float\<close> is a \<open>real\<close>; \<open>x ** 0.5\<close> is \<open>sqrt x\<close>. Rounding of binary
    floating point is not modelled.
  \<^item> A \<open>datetime.date\<close> is its proleptic Gregorian ordinal, an \<open>int\<close>; adding a
    \<open>timedelta(days=k)\<close> adds \<open>k\<close>, and \<open>(d1 - d2).days\<close> is \<open>d1 - d2\<close>.
  \<^item> A Python \<open>str\<close> is the list of its characters. A \<open>uuid.UUID\<close> is represented
    by its canonical text, so that \<open>str(u)\<close> is \<open>u\<close> itself.
  \<^item> Functions of the Python library that the detector calls are parameters, collected
    in the record \<open>pylib\<close>.
  \<^item> The table \<open>transactions\<close> is the list of its rows. A query filters the rows and,
    where the source orders them, sorts them stably.
  \<^item> The methods of \<open>RecurringDetector\<close> keep their names without the leading
    underscore.
\<close>

subsection \<open>Data model\<close>

type_synonym uuid = string
type_synonym pydate = int

datatype category = Category (name: string)

record transaction =
  tx_id :: uuid
  date :: pydate
  amount :: real
  description :: string
  counterpart_name :: "string option"
  category :: "category option"
  llm_category :: "string option"
  is_recurring :: bool
  recurring_pattern :: "string option"
  recurring_group_id :: "uuid option"

record RecurringPattern =
  pattern_id :: string
  description_pattern :: string
  amount_range :: "real \<times> real"
  frequency_days :: int
  frequency_type :: string
  confidence :: real
  transactions :: "string list"
  next_expected_date :: "pydate option"
  merchant_pattern :: "string option"
  category_suggestion :: "string option"

record pylib =
  ratio :: "string \<Rightarrow> string \<Rightarrow> real"
    \<comment> \<open>\<open>SequenceMatcher(None, a, b).ratio()\<close>\<close>
  lower :: "string \<Rightarrow> string"
    \<comment> \<open>\<open>str.lower\<close>\<close>
  findall_words :: "string \<Rightarrow> string list"
    \<comment> \<open>\<open>re.findall(r'\b[a-z...]+\b', s)\<close> with the pattern of \<open>_find_common_words\<close>\<close>
  uuid4 :: "nat \<Rightarrow> uuid"
    \<comment> \<open>the result of the k-th call of \<open>uuid.uuid4()\<close>\<close>
  UUID :: "string \<Rightarrow> uuid option"
    \<comment> \<open>\<open>uuid.UUID(s)\<close>; \<open>None\<close> where it raises \<open>ValueError\<close>\<close>

datatype py_error = ZeroDivisionError | ValueError

datatype pyfloat = Finite real | PosInf

text \<open>The attributes set in \<open>__init__\<close>.\<close>

definition min_occurrences :: nat where
  "min_occurrences = 3"

definition similarity_threshold :: real where
  "similarity_threshold = 8 / 10"

definition amount_tolerance :: real where
  "amount_tolerance = 1 / 10"

subsection \<open>Python built-ins\<close>

definition py_int :: "real \<Rightarrow> int" where
  \<comment> \<open>\<open>int(x)\<close> of a float truncates towards zero\<close>
  "py_int x = (if 0 \<le> x then \<lfloor>x\<rfloor> else \<lceil>x\<rceil>)"

definition truthy :: "string option \<Rightarrow> bool" where
  \<comment> \<open>truth value of an optional string: \<open>None\<close> and the empty string are false\<close>
  "truthy s = (case s of None \<Rightarrow> False | Some t \<Rightarrow> t \<noteq> [])"

fun count_into :: "('a \<times> nat) list \<Rightarrow> 'a \<Rightarrow> ('a \<times> nat) list" where
  \<comment> \<open>\<open>d[k] += 1\<close> on a \<open>defaultdict(int)\<close>; the list keeps the insertion order of the keys\<close>
  "count_into [] k = [(k, 1)]"
| "count_into ((k', c) # d) k =
     (if k' = k then (k', c + 1) # d else (k', c) # count_into d k)"

definition count_all :: "'a list \<Rightarrow> ('a \<times> nat) list" where
  "count_all xs = foldl count_into [] xs"

fun max_item :: "('a \<times> nat) \<Rightarrow> ('a \<times> nat) list \<Rightarrow> ('a \<times> nat)" where
  \<comment> \<open>the scan of \<open>max(items, key=lambda x: x[1])\<close>: the first maximal item wins\<close>
  "max_item best [] = best"
| "max_item best (x # xs) = max_item (if snd best < snd x then x else best) xs"

definition max_by_count :: "('a \<times> nat) list \<Rightarrow> py_error + 'a" where
  \<comment> \<open>\<open>max(d.items(), key=lambda x: x[1])[0]\<close>; \<open>max\<close> of an empty sequence raises\<close>
  "max_by_count d = (case d of [] \<Rightarrow> Inl ValueError | x # xs \<Rightarrow> Inr (fst (max_item x xs)))"

fun lookup_count :: "('a \<times> nat) list \<Rightarrow> 'a \<Rightarrow> nat" where
  "lookup_count [] k = 0"
| "lookup_count ((k', c) # d) k = (if k' = k then c else lookup_count d k)"

fun py_min :: "real list \<Rightarrow> py_error + real" where
  "py_min [] = Inl ValueError"
| "py_min (x # xs) = Inr (foldl min x xs)"

fun py_max :: "real list \<Rightarrow> py_error + real" where
  "py_max [] = Inl ValueError"
| "py_max (x # xs) = Inr (foldl max x xs)"

subsection \<open>Frequency inference\<close>

definition frequency_patterns :: "(int \<times> string \<times> int) list" where
  "frequency_patterns =
     [(1, ''daily'', 1), (7, ''weekly'', 2), (14, ''biweekly'', 3),
      (30, ''monthly'', 5), (90, ''quarterly'', 10), (365, ''yearly'', 30)]"

fun match_frequency :: "real \<Rightarrow> (int \<times> string \<times> int) list \<Rightarrow> string \<times> real" where
  \<comment> \<open>the \<open>for\<close> loop with \<open>break\<close>; the initial values remain when no pattern matches\<close>
  "match_frequency avg_interval [] = (''irregular'', avg_interval)"
| "match_frequency avg_interval ((pattern_days, pattern_name, tolerance) # ps) =
     (if \<bar>avg_interval - real_of_int pattern_days\<bar> \<le> real_of_int tolerance
      then (pattern_name, real_of_int pattern_days)
      else match_frequency avg_interval ps)"

definition detect_frequency :: "int list \<Rightarrow> (int \<times> string \<times> real) option" where
  "detect_frequency intervals =
     (if intervals = [] then None
      else
        let avg_interval = real_of_int (sum_list intervals) / real (length intervals);
            variance = (\<Sum>x\<leftarrow>intervals. (real_of_int x - avg_interval)\<^sup>2) / real (length intervals);
            std_dev = sqrt variance;
            cv = (if avg_interval > 0 then Finite (std_dev / avg_interval) else PosInf);
            (frequency_type, target_interval) = match_frequency avg_interval frequency_patterns;
            confidence = (case cv of Finite c \<Rightarrow> max 0 (1 - c / 2) | PosInf \<Rightarrow> 0);
            occurrence_bonus = min (2 / 10) (real_of_int (int (length intervals) - 2) * (5 / 100));
            confidence = confidence + occurrence_bonus;
            confidence = (if frequency_type = ''irregular'' then confidence * (5 / 10) else confidence);
            confidence = min 1 confidence
        in Some (py_int target_interval, frequency_type, confidence))"

subsection \<open>Similarity grouping\<close>

definition are_transactions_similar :: "pylib \<Rightarrow> transaction \<Rightarrow> transaction \<Rightarrow> py_error + bool" where
  \<comment> \<open>a float division by zero raises \<open>ZeroDivisionError\<close>\<close>
  "are_transactions_similar L tx1 tx2 =
     (let desc_similarity = ratio L (lower L (description tx1)) (lower L (description tx2)) in
      if desc_similarity < similarity_threshold then Inr False
      else
        let amount1 = \<bar>amount tx1\<bar>; amount2 = \<bar>amount tx2\<bar> in
        if max amount1 amount2 = 0 then Inl ZeroDivisionError
        else
          let amount_diff = \<bar>amount1 - amount2\<bar> / max amount1 amount2 in
          if amount_diff > amount_tolerance then Inr False
          else if truthy (counterpart_name tx1) \<and> truthy (counterpart_name tx2) then
            (case (counterpart_name tx1, counterpart_name tx2) of
               (Some c1, Some c2) \<Rightarrow>
                 (let counterpart_similarity = ratio L (lower L c1) (lower L c2) in
                  if counterpart_similarity < 7 / 10 then Inr False else Inr True)
             | _ \<Rightarrow> Inr True)
          else Inr True)"

fun absorb_similar ::
  "pylib \<Rightarrow> transaction \<Rightarrow> transaction list \<Rightarrow> transaction list \<times> uuid set
     \<Rightarrow> py_error + (transaction list \<times> uuid set)" where
  \<comment> \<open>the inner loop of \<open>_group_similar_transactions\<close> over \<open>transactions[i+1:]\<close>,
      on the pair of \<open>group\<close> (here \<open>grp\<close>) and \<open>used_transactions\<close>\<close>
  "absorb_similar L tx1 [] (grp, used_transactions) = Inr (grp, used_transactions)"
| "absorb_similar L tx1 (tx2 # rest) (grp, used_transactions) =
     (if tx_id tx2 \<in> used_transactions then absorb_similar L tx1 rest (grp, used_transactions)
      else
        (case are_transactions_similar L tx1 tx2 of
           Inl e \<Rightarrow> Inl e
         | Inr similar \<Rightarrow>
             if similar
             then absorb_similar L tx1 rest (grp @ [tx2], insert (tx_id tx2) used_transactions)
             else absorb_similar L tx1 rest (grp, used_transactions)))"

fun group_loop ::
  "pylib \<Rightarrow> transaction list \<Rightarrow> transaction list list \<times> uuid set
     \<Rightarrow> py_error + transaction list list" where
  \<comment> \<open>the outer loop of \<open>_group_similar_transactions\<close>,
      on the pair of \<open>groups\<close> and \<open>used_transactions\<close>\<close>
  "group_loop L [] (groups, used_transactions) = Inr groups"
| "group_loop L (tx1 # rest) (groups, used_transactions) =
     (if tx_id tx1 \<in> used_transactions then group_loop L rest (groups, used_transactions)
      else
        (case absorb_similar L tx1 rest ([tx1], insert (tx_id tx1) used_transactions) of
           Inl e \<Rightarrow> Inl e
         | Inr (grp, used') \<Rightarrow>
             group_loop L rest
               (if length grp \<ge> min_occurrences then groups @ [grp] else groups, used')))"

definition group_similar_transactions ::
  "pylib \<Rightarrow> transaction list \<Rightarrow> py_error + transaction list list" where
  "group_similar_transactions L txs = group_loop L txs ([], {})"

subsection \<open>Pattern summarization\<close>

definition stop_words :: "string set" where
  \<comment> \<open>the accented letters are the code points U+00E9 and U+00EA\<close>
  "stop_words =
     {''de'', ''da'', ''do'', ''das'', ''dos'', ''e'', ''o'', ''a'', ''os'', ''as'', ''em'',
      ''no'', ''na'', ''nos'', ''nas'', ''para'', ''por'', ''com'', ''sem'', ''sob'', ''sobre'',
      ''entre'', ''ate'', ''at'' @ [CHR 0xE9], ''desde'', ''durante'', ''pix'',
      ''transferencia'', ''transfer'' @ [CHR 0xEA] @ ''ncia'', ''pagamento'', ''compra'',
      ''debito'', ''d'' @ [CHR 0xE9] @ ''bito''}"

definition find_common_words :: "pylib \<Rightarrow> string list \<Rightarrow> string list" where
  "find_common_words L texts =
     (let all_words =
            concat (map (\<lambda>text. filter (\<lambda>w. length w > 2 \<and> w \<notin> stop_words)
                                     (findall_words L (lower L text))) texts);
          word_counts = count_all all_words;
          min_frequency = max 1 (py_int (real (length texts) * (7 / 10)));
          common_words = map fst (filter (\<lambda>(word, count). int count \<ge> min_frequency) word_counts);
          common_words = sort_key (\<lambda>w. - int (lookup_count word_counts w)) common_words
      in take 3 common_words)"

fun join :: "string \<Rightarrow> string list \<Rightarrow> string" where
  \<comment> \<open>\<open>sep.join(words)\<close>\<close>
  "join sep [] = []"
| "join sep [w] = w"
| "join sep (w # ws) = w @ sep @ join sep ws"

definition generate_description_pattern :: "pylib \<Rightarrow> transaction list \<Rightarrow> py_error + string" where
  "generate_description_pattern L txs =
     (let descriptions = map description txs;
          common_words = find_common_words L descriptions
      in if common_words \<noteq> [] then Inr (join '' '' common_words)
         else max_by_count (count_all descriptions))"

definition generate_merchant_pattern :: "transaction list \<Rightarrow> string option" where
  "generate_merchant_pattern txs =
     (let merchants = map (\<lambda>tx. the (counterpart_name tx)) (filter (\<lambda>tx. truthy (counterpart_name tx)) txs)
      in if merchants = [] then None
         else (case max_by_count (count_all merchants) of Inr m \<Rightarrow> Some m | Inl e \<Rightarrow> None))"

definition category_label :: "transaction \<Rightarrow> string" where
  \<comment> \<open>the element of the list comprehension: a conditional expression binds weaker than
      \<open>or\<close>, so it reads \<open>(tx.llm_category or tx.category.name) if tx.category else "Outros"\<close>\<close>
  "category_label tx =
     (case category tx of
        Some c \<Rightarrow> (if truthy (llm_category tx) then the (llm_category tx) else name c)
      | None \<Rightarrow> ''Outros'')"

subsection \<open>Analysis of one group\<close>

definition intervals_of :: "transaction list \<Rightarrow> int list" where
  "intervals_of txs = map (\<lambda>i. date (txs ! i) - date (txs ! (i - 1))) [1..<length txs]"

definition analyze_transaction_group ::
  "pylib \<Rightarrow> nat \<Rightarrow> transaction list \<Rightarrow> py_error + RecurringPattern option" where
  \<comment> \<open>the second argument counts the calls of \<open>uuid.uuid4()\<close> made before this one\<close>
  "analyze_transaction_group L k txs0 =
     (if length txs0 < min_occurrences then Inr None
      else
        let txs = sort_key date txs0;
            intervals = intervals_of txs
        in if intervals = [] then Inr None
           else
             (case detect_frequency intervals of
                None \<Rightarrow> Inr None
              | Some frequency_info \<Rightarrow>
                  let (frequency_days, frequency_type, confidence) = frequency_info;
                      amounts = map (\<lambda>tx. \<bar>amount tx\<bar>) txs in
                  (case (py_min amounts, py_max amounts) of
                     (Inr min_amount, Inr max_amount) \<Rightarrow>
                       (case generate_description_pattern L txs of
                          Inl e \<Rightarrow> Inl e
                        | Inr pat \<Rightarrow>
                            let description_pattern = pat;
                                merchant_pattern = generate_merchant_pattern txs;
                                last_date = date (last txs);
                                next_expected_date = last_date + frequency_days;
                                categories = map category_label txs;
                                category_counts = count_all categories;
                                category_suggestion =
                                  (case max_by_count category_counts of
                                     Inr c \<Rightarrow> Some c | Inl e \<Rightarrow> None)
                            in Inr (Some
                                 \<lparr>pattern_id = uuid4 L k,
                                  description_pattern = description_pattern,
                                  amount_range = (min_amount, max_amount),
                                  frequency_days = frequency_days,
                                  frequency_type = frequency_type,
                                  confidence = confidence,
                                  transactions = map tx_id txs,
                                  next_expected_date = Some next_expected_date,
                                  merchant_pattern = merchant_pattern,
                                  category_suggestion = category_suggestion\<rparr>))
                   | (Inl e, _) \<Rightarrow> Inl e
                   | (_, Inl e) \<Rightarrow> Inl e)))"

subsection \<open>Detection\<close>

fun detect_loop ::
  "pylib \<Rightarrow> transaction list list \<Rightarrow> nat \<times> RecurringPattern list
     \<Rightarrow> py_error + RecurringPattern list" where
  \<comment> \<open>the loop over \<open>transaction_groups\<close>, on the number of identifiers drawn so far and
      the list \<open>patterns\<close>\<close>
  "detect_loop L [] (k, patterns) = Inr patterns"
| "detect_loop L (g # gs) (k, patterns) =
     (if length g \<ge> min_occurrences then
        (case analyze_transaction_group L k g of
           Inl e \<Rightarrow> Inl e
         | Inr None \<Rightarrow> detect_loop L gs (k, patterns)
         | Inr (Some pattern) \<Rightarrow>
             if confidence pattern \<ge> 6 / 10
             then detect_loop L gs (Suc k, patterns @ [pattern])
             else detect_loop L gs (Suc k, patterns))
      else detect_loop L gs (k, patterns))"

definition detect_recurring_transactions ::
  "pylib \<Rightarrow> pydate \<Rightarrow> transaction list \<Rightarrow> int
     \<Rightarrow> (py_error + RecurringPattern list) \<times> transaction list" where
  \<comment> \<open>\<open>today\<close> is the value of \<open>date.today()\<close>; the result is paired with the table
      after the call\<close>
  "detect_recurring_transactions L today db days_back =
     (let cutoff_date = today - days_back;
          transactions =
            sort_key date (filter (\<lambda>tx. date tx \<ge> cutoff_date \<and> is_recurring tx = False) db)
      in if length transactions < min_occurrences then (Inr [], db)
         else
           (case group_similar_transactions L transactions of
              Inl e \<Rightarrow> (Inl e, db)
            | Inr transaction_groups \<Rightarrow>
                (case detect_loop L transaction_groups (0, []) of
                   Inl e \<Rightarrow> (Inl e, db)
                 | Inr patterns \<Rightarrow> (Inr (sort_key (\<lambda>p. - confidence p) patterns), db))))"

subsection \<open>Marking\<close>

definition mark_transactions_as_recurring ::
  "pylib \<Rightarrow> nat \<Rightarrow> transaction list \<Rightarrow> RecurringPattern
     \<Rightarrow> (py_error + nat) \<times> transaction list" where
  \<comment> \<open>the rows selected by the query are updated and committed; a malformed identifier
      raises before the query\<close>
  "mark_transactions_as_recurring L k db pattern =
     (let group_id = uuid4 L k in
      case those (map (UUID L) (transactions pattern)) of
        None \<Rightarrow> (Inl ValueError, db)
      | Some transaction_ids \<Rightarrow>
          let selected = (\<lambda>tx. tx_id tx \<in> set transaction_ids);
              updated_count = length (filter selected db);
              db' = map (\<lambda>tx. if selected tx
                               then tx\<lparr>is_recurring := True,
                                       recurring_pattern := Some (frequency_type pattern),
                                       recurring_group_id := Some group_id\<rparr>
                               else tx) db
          in (Inr updated_count, db'))"

subsection \<open>Forecast\<close>

record prediction =
  predicted_date :: pydate
  p_description :: string
  estimated_amount :: real
  p_category :: string
  p_frequency_type :: "string option"
  p_confidence :: real
  p_recurring_group_id :: string

definition frequency_map_get :: "string option \<Rightarrow> int" where
  \<comment> \<open>\<open>frequency_map.get(pattern, 30)\<close>\<close>
  "frequency_map_get pattern =
     (case pattern of
        None \<Rightarrow> 30
      | Some p \<Rightarrow>
          (case map_of [(''daily'', 1), (''weekly'', 7), (''biweekly'', 14),
                        (''monthly'', 30), (''quarterly'', 90), (''yearly'', 365)] p of
             Some d \<Rightarrow> d
           | None \<Rightarrow> 30))"

definition last_tx_of :: "transaction list \<Rightarrow> uuid \<Rightarrow> transaction option" where
  \<comment> \<open>the first row of the group in descending order of date\<close>
  "last_tx_of db group_id =
     (case filter (\<lambda>tx. recurring_group_id tx = Some group_id) db of
        [] \<Rightarrow> None
      | t # ts \<Rightarrow> Some (foldl (\<lambda>best tx. if date best < date tx then tx else best) t ts))"

definition make_prediction :: "transaction \<Rightarrow> string option \<Rightarrow> uuid \<Rightarrow> pydate \<Rightarrow> prediction" where
  "make_prediction last_tx pattern group_id next_date =
     \<lparr>predicted_date = next_date,
      p_description = description last_tx,
      estimated_amount = amount last_tx,
      p_category =
        (if truthy (llm_category last_tx) then the (llm_category last_tx)
         else (case category last_tx of Some c \<Rightarrow> name c | None \<Rightarrow> ''Outros'')),
      p_frequency_type = pattern,
      p_confidence = 8 / 10,
      p_recurring_group_id = group_id\<rparr>"

partial_function (option) extend_predictions ::
  "(pydate \<Rightarrow> prediction) \<Rightarrow> int \<Rightarrow> pydate \<Rightarrow> pydate \<Rightarrow> prediction list
     \<Rightarrow> prediction list option" where
  \<comment> \<open>the \<open>while\<close> loop; \<open>None\<close> stands for a loop that does not end\<close>
  "extend_predictions mk freq_days target_date next_date predictions =
     (if next_date \<le> target_date
      then extend_predictions mk freq_days target_date (next_date + freq_days)
             (predictions @ [mk next_date])
      else Some predictions)"

fun predict_loop ::
  "transaction list \<Rightarrow> pydate \<Rightarrow> (uuid option \<times> string option) list \<Rightarrow> prediction list
     \<Rightarrow> prediction list option" where
  \<comment> \<open>the loop over \<open>recurring_groups\<close>\<close>
  "predict_loop db target_date [] predictions = Some predictions"
| "predict_loop db target_date ((group_id, pattern) # gs) predictions =
     (case group_id of
        None \<Rightarrow> predict_loop db target_date gs predictions
      | Some gid \<Rightarrow>
          (case last_tx_of db gid of
             None \<Rightarrow> predict_loop db target_date gs predictions
           | Some last_tx \<Rightarrow>
               let frequency_days = frequency_map_get pattern;
                   next_date = date last_tx + frequency_days
               in (case extend_predictions (make_prediction last_tx pattern gid) frequency_days
                          target_date next_date predictions of
                     None \<Rightarrow> None
                   | Some predictions' \<Rightarrow> predict_loop db target_date gs predictions')))"

definition predict_next_transactions ::
  "pydate \<Rightarrow> transaction list \<Rightarrow> int \<Rightarrow> prediction list option \<times> transaction list" where
  \<comment> \<open>\<open>today\<close> is the value of \<open>date.today()\<close>; the result is paired with the table
      after the call\<close>
  "predict_next_transactions today db days_ahead =
     (let recurring_groups =
            remdups (map (\<lambda>tx. (recurring_group_id tx, recurring_pattern tx))
                       (filter (\<lambda>tx. is_recurring tx = True \<and> recurring_group_id tx \<noteq> None) db));
          target_date = today + days_ahead
      in (case predict_loop db target_date recurring_groups [] of
            None \<Rightarrow> (None, db)
          | Some predictions \<Rightarrow> (Some (sort_key predicted_date predictions), db)))"

subsection \<open>An instance of the library, for evaluation\<close>

text \<open>
  On ASCII text \<open>ascii_lower\<close> is \<open>str.lower\<close> and \<open>ascii_findall\<close> is \<open>re.findall\<close>
  with the pattern of \<open>_find_common_words\<close>: a match is a maximal run of word characters
  that consists of the letters a to z only. The ratio of two equal strings is 1 and that of
  two strings without a common character is 0, as those of \<open>SequenceMatcher\<close>; the
  instance is evaluated on such pairs only.
\<close>

definition ascii_lower :: "string \<Rightarrow> string" where
  "ascii_lower s =
     map (\<lambda>c. case map_of (zip ''ABCDEFGHIJKLMNOPQRSTUVWXYZ'' ''abcdefghijklmnopqrstuvwxyz'') c of
               Some l \<Rightarrow> l | None \<Rightarrow> c) s"

definition is_pattern_letter :: "char \<Rightarrow> bool" where
  "is_pattern_letter c = (c \<in> set ''abcdefghijklmnopqrstuvwxyz'')"

definition is_word_char :: "char \<Rightarrow> bool" where
  "is_word_char c =
     (is_pattern_letter c \<or> c \<in> set ''ABCDEFGHIJKLMNOPQRSTUVWXYZ0123456789_'')"

fun word_runs :: "string \<Rightarrow> string \<Rightarrow> string list" where
  "word_runs cur [] = (if cur = [] then [] else [cur])"
| "word_runs cur (c # cs) =
     (if is_word_char c then word_runs (cur @ [c]) cs
      else (if cur = [] then [] else [cur]) @ word_runs [] cs)"

definition ascii_findall :: "string \<Rightarrow> string list" where
  "ascii_findall s = filter (list_all is_pattern_letter) (word_runs [] s)"

definition ascii_lib :: pylib where
  "ascii_lib =
     \<lparr>ratio = (\<lambda>a b. if a = b then 1 else 0),
      lower = ascii_lower,
      findall_words = ascii_findall,
      uuid4 = (\<lambda>k. ''uuid'' @ replicate k (CHR ''+'')),
      UUID = Some\<rparr>"

definition plain_tx :: "uuid \<Rightarrow> pydate \<Rightarrow> real \<Rightarrow> string \<Rightarrow> transaction" where
  \<comment> \<open>a row that is not marked and has neither counterpart nor category\<close>
  "plain_tx i d a s =
     \<lparr>tx_id = i, date = d, amount = a, description = s, counterpart_name = None,
      category = None, llm_category = None, is_recurring = False,
      recurring_pattern = None, recurring_group_id = None\<rparr>"

subsection \<open>Notions of the specification\<close>

definition gap_mean :: "int list \<Rightarrow> real" where
  "gap_mean xs = real_of_int (sum_list xs) / real (length xs)"

definition gap_stddev :: "int list \<Rightarrow> real" where
  "gap_stddev xs = sqrt ((\<Sum>x\<leftarrow>xs. (real_of_int x - gap_mean xs)\<^sup>2) / real (length xs))"

definition claimed_confidence :: "nat \<Rightarrow> real \<Rightarrow> real \<Rightarrow> bool \<Rightarrow> real" where
  \<comment> \<open>the confidence as the specification words it, for a group of \<open>n\<close> transactions whose
      gaps have mean \<open>m\<close> and standard deviation \<open>s\<close>\<close>
  "claimed_confidence n m s irregular =
     (let cv = s / m;
          c = min 1 (max 0 (1 - cv / 2) + min (2 / 10) ((real n - 2) * (5 / 100)))
      in if irregular then c * (5 / 10) else c)"

definition c5_group :: "transaction list" where
  "c5_group =
     [plain_tx ''t1'' 0 (-50) ''Academia'', plain_tx ''t2'' 29 (-50) ''Academia'',
      plain_tx ''t3'' 60 (-50) ''Academia'']"

definition c1_db :: "transaction list" where
  "c1_db =
     [plain_tx ''n0'' 0 (-120) ''Farmacia Central'', plain_tx ''n1'' 3 (-120) ''Farmacia Central'',
      plain_tx ''n2'' 48 (-120) ''Farmacia Central'', plain_tx ''n3'' 57 (-120) ''Farmacia Central'',
      plain_tx ''n4'' 117 (-120) ''Farmacia Central'']"


definition marked :: "pylib \<Rightarrow> nat \<Rightarrow> RecurringPattern \<Rightarrow> transaction \<Rightarrow> transaction" where
  \<comment> \<open>a row after the three assignments of the marking loop\<close>
  "marked L k pattern tx =
     tx\<lparr>is_recurring := True, recurring_pattern := Some (frequency_type pattern),
        recurring_group_id := Some (uuid4 L k)\<rparr>"

definition c3_db :: "transaction list" where
  "c3_db =
     [plain_tx ''a1'' 1 (-30) ''Streaming'', plain_tx ''a2'' 8 (-30) ''Streaming'',
      plain_tx ''b1'' 9 (-75) ''Mercado'']"

definition c3_pattern :: RecurringPattern where
  "c3_pattern =
     \<lparr>pattern_id = ''p1'', description_pattern = ''streaming'', amount_range = (30, 30),
      frequency_days = 7, frequency_type = ''weekly'', confidence = 1,
      transactions = [''a1'', ''a2'', ''a3''], next_expected_date = Some 22,
      merchant_pattern = None, category_suggestion = Some ''Outros''\<rparr>"

definition recurring_tx :: "uuid \<Rightarrow> pydate \<Rightarrow> real \<Rightarrow> string \<Rightarrow> uuid \<Rightarrow> string \<Rightarrow> transaction" where
  \<comment> \<open>a row marked as a member of the group \<open>g\<close> with the pattern \<open>pat\<close>\<close>
  "recurring_tx i d a s g pat =
     (plain_tx i d a s)\<lparr>is_recurring := True, recurring_pattern := Some pat,
                        recurring_group_id := Some g\<rparr>"

definition c8_db :: "transaction list" where
  "c8_db =
     [recurring_tx ''w1'' (-14) (-25) ''Feira'' ''g1'' ''weekly'',
      recurring_tx ''w2'' (-7) (-25) ''Feira'' ''g1'' ''weekly'',
      recurring_tx ''w3'' 0 (-25) ''Feira'' ''g1'' ''weekly'',
      plain_tx ''x1'' 3 (-10) ''Cafe'']"

subsection \<open>Detection on the session\<close>








definition c9_db :: "transaction list" where
  "c9_db =
     [plain_tx ''s1'' 0 (-20) ''Spotify'', plain_tx ''a1'' 5 (-900) ''Aluguel'',
      plain_tx ''k1'' 7 (-80) ''Kwh'', plain_tx ''s2'' 30 (-20) ''Spotify'',
      plain_tx ''a2'' 35 (-900) ''Aluguel'', plain_tx ''k2'' 37 (-80) ''Kwh'',
      plain_tx ''s3'' 60 (-20) ''Spotify'', plain_tx ''a3'' 65 (-900) ''Aluguel'']"

definition contributes :: "transaction \<Rightarrow> string \<Rightarrow> bool" where
  \<comment> \<open>the label that a transaction gives to its group: its LLM category if it has one,
      and otherwise the name of its category; the default \<open>Outros\<close> if it has neither.
      Nothing is required of a transaction that has an LLM category and no category.\<close>
  "contributes tx lab =
     (case category tx of
        Some c \<Rightarrow>
          lab = (case llm_category tx of
                   Some l \<Rightarrow> (if l = [] then name c else l)
                 | None \<Rightarrow> name c)
      | None \<Rightarrow>
          (case llm_category tx of
             Some l \<Rightarrow> (if l = [] then lab = ''Outros'' else True)
           | None \<Rightarrow> lab = ''Outros''))"

definition c7_group :: "transaction list" where
  "c7_group =
     [(plain_tx ''v1'' 0 (-30) ''Streaming Plus'')
        \<lparr>category := Some (Category ''Lazer''), llm_category := Some ''Assinaturas''\<rparr>,
      (plain_tx ''v2'' 30 (-30) ''Streaming Plus'')
        \<lparr>category := Some (Category ''Assinaturas'')\<rparr>,
      (plain_tx ''v3'' 60 (-30) ''Streaming Plus'')
        \<lparr>category := Some (Category ''Lazer''), llm_category := Some ''''\<rparr>,
      plain_tx ''v4'' 90 (-30) ''Streaming Plus'']"

(*DEFS*)

section \<open>Properties\<close>

subsection \<open>Counting and built-ins\<close>

lemma count_into_not_Nil: "count_into d k \<noteq> []"
  by (cases d) (auto split: if_splits)

lemma foldl_count_into_not_Nil: "d \<noteq> [] \<or> xs \<noteq> [] \<Longrightarrow> foldl count_into d xs \<noteq> []"
  by (induction xs arbitrary: d) (auto simp: count_into_not_Nil)

lemma count_all_not_Nil: "xs \<noteq> [] \<Longrightarrow> count_all xs \<noteq> []"
  by (simp add: count_all_def foldl_count_into_not_Nil)

lemma max_by_count_Inr: "d \<noteq> [] \<Longrightarrow> \<exists>c. max_by_count d = Inr c"
  by (cases d) (auto simp: max_by_count_def)

lemma py_min_Inr: "xs \<noteq> [] \<Longrightarrow> \<exists>m. py_min xs = Inr m"
  by (cases xs) auto

lemma py_max_Inr: "xs \<noteq> [] \<Longrightarrow> \<exists>m. py_max xs = Inr m"
  by (cases xs) auto

subsection \<open>Frequency inference and the analysis of a group\<close>

lemma generate_description_pattern_Inr:
  "txs \<noteq> [] \<Longrightarrow> \<exists>s. generate_description_pattern L txs = Inr s"
  using max_by_count_Inr [of "count_all (map description txs)"]
    count_all_not_Nil [of "map description txs"]
  by (auto simp: generate_description_pattern_def Let_def)

lemma length_intervals_of: "length (intervals_of txs) = length txs - 1"
  by (simp add: intervals_of_def)

lemma detect_frequency_Some:
  assumes "intervals \<noteq> []"
  shows "detect_frequency intervals =
    Some (py_int (snd (match_frequency (gap_mean intervals) frequency_patterns)),
          fst (match_frequency (gap_mean intervals) frequency_patterns),
          min 1 (((if 0 < gap_mean intervals
                   then max 0 (1 - (gap_stddev intervals / gap_mean intervals) / 2) else 0)
                  + min (2 / 10) ((real (length intervals) - 2) * (5 / 100)))
                 * (if fst (match_frequency (gap_mean intervals) frequency_patterns) = ''irregular''
                    then 5 / 10 else 1)))"
  using assms
  by (simp add: detect_frequency_def gap_mean_def gap_stddev_def Let_def split: prod.splits)

lemma analyze_Some:
  assumes "3 \<le> length txs"
  shows "\<exists>p. analyze_transaction_group L k txs = Inr (Some p) \<and>
    detect_frequency (intervals_of (sort_key date txs)) =
      Some (frequency_days p, frequency_type p, confidence p) \<and>
    transactions p = map tx_id (sort_key date txs) \<and>
    next_expected_date p = Some (date (last (sort_key date txs)) + frequency_days p) \<and>
    category_suggestion p =
      (case max_by_count (count_all (map category_label (sort_key date txs))) of
         Inr c \<Rightarrow> Some c | Inl e \<Rightarrow> None) \<and>
    generate_description_pattern L (sort_key date txs) = Inr (description_pattern p)"
proof -
  let ?txs = "sort_key date txs"
  have len: "3 \<le> length ?txs" using assms by simp
  have ne: "?txs \<noteq> []" using len by (metis list.size(3) not_numeral_le_zero)
  have "length (intervals_of ?txs) = length ?txs - 1" by (rule length_intervals_of)
  with len have iv: "intervals_of ?txs \<noteq> []" by auto
  obtain d t c where df: "detect_frequency (intervals_of ?txs) = Some (d, t, c)"
    using detect_frequency_Some [OF iv] by blast
  obtain mn where mn: "py_min (map (\<lambda>tx. \<bar>amount tx\<bar>) ?txs) = Inr mn"
    using py_min_Inr [of "map (\<lambda>tx. \<bar>amount tx\<bar>) ?txs"] ne by auto
  obtain mx where mx: "py_max (map (\<lambda>tx. \<bar>amount tx\<bar>) ?txs) = Inr mx"
    using py_max_Inr [of "map (\<lambda>tx. \<bar>amount tx\<bar>) ?txs"] ne by auto
  obtain s where s: "generate_description_pattern L ?txs = Inr s"
    using generate_description_pattern_Inr [OF ne] by blast
  show ?thesis
    using assms iv df mn mx s
    by (simp add: analyze_transaction_group_def min_occurrences_def Let_def)
qed

lemma detect_frequency_29_31: "detect_frequency [29, 31] = Some (30, ''monthly'', 59 / 60)"
  by (simp add: detect_frequency_def frequency_patterns_def py_int_def Let_def power2_eq_square)

lemma c5_group_intervals: "intervals_of (sort_key date c5_group) = [29, 31]"
  by (simp add: intervals_of_def c5_group_def plain_tx_def upt_rec)

lemma c5_group_length: "length c5_group = 3"
  by (simp add: c5_group_def)

subsection \<open>Claim C5: the confidence of a group\<close>

text \<open>
  C5, as amended. A group of \<open>n \<ge> 3\<close> transactions is analysed into a pattern. With \<open>m\<close>
  the mean and \<open>s\<close> the standard deviation of its \<open>n - 1\<close> gaps, the confidence of the
  pattern is the sum of a base, \<open>max(0, 1 - (s/m)/2)\<close> when \<open>m > 0\<close> and \<open>0\<close> otherwise, and of
  the bonus \<open>min(0.2, (n - 3) * 0.05)\<close>, computed from the number of gaps less two; the sum is
  multiplied by \<open>0.5\<close> exactly when the frequency type is irregular, and the cap at \<open>1.0\<close> is
  applied last.
\<close>

theorem C5_confidence_of_group:
  assumes "3 \<le> length txs"
  shows "\<exists>p. analyze_transaction_group L k txs = Inr (Some p) \<and>
    confidence p =
      (let gaps = intervals_of (sort_key date txs);
           m = gap_mean gaps;
           s = gap_stddev gaps;
           n = length txs;
           base = (if 0 < m then max 0 (1 - (s / m) / 2) else 0);
           bonus = min (2 / 10) ((real n - 3) * (5 / 100));
           penalty = (if frequency_type p = ''irregular'' then 5 / 10 else 1)
       in min 1 ((base + bonus) * penalty))"
proof -
  let ?gaps = "intervals_of (sort_key date txs)"
  let ?t = "fst (match_frequency (gap_mean ?gaps) frequency_patterns)"
  let ?c = "\<lambda>ft. min 1 (((if 0 < gap_mean ?gaps
                   then max 0 (1 - (gap_stddev ?gaps / gap_mean ?gaps) / 2) else 0)
                  + min (2 / 10) ((real (length ?gaps) - 2) * (5 / 100)))
                 * (if ft = ''irregular'' then 5 / 10 else 1))"
  obtain p where p: "analyze_transaction_group L k txs = Inr (Some p)"
    and df: "detect_frequency ?gaps = Some (frequency_days p, frequency_type p, confidence p)"
    using analyze_Some [OF assms] by blast
  have len: "length ?gaps = length txs - 1" by (simp add: length_intervals_of)
  with assms have ne: "?gaps \<noteq> []" by auto
  have r: "real (length ?gaps) - 2 = real (length txs) - 3" using len assms by simp
  have "Some (frequency_days p, frequency_type p, confidence p) =
        Some (py_int (snd (match_frequency (gap_mean ?gaps) frequency_patterns)), ?t, ?c ?t)"
    using df [symmetric] detect_frequency_Some [OF ne] by (rule trans)
  then have t: "?t = frequency_type p" and c: "confidence p = ?c ?t"
    by (simp_all only: option.inject prod.inject)
  have "confidence p = ?c (frequency_type p)"
    using c unfolding t .
  then show ?thesis
    unfolding Let_def r using p by blast
qed

theorem C5_confidence_of_group_witness:
  "3 \<le> length c5_group \<and>
   (\<exists>p. analyze_transaction_group ascii_lib 0 c5_group = Inr (Some p) \<and>
    confidence p =
      (let gaps = intervals_of (sort_key date c5_group);
           m = gap_mean gaps;
           s = gap_stddev gaps;
           n = length c5_group;
           base = (if 0 < m then max 0 (1 - (s / m) / 2) else 0);
           bonus = min (2 / 10) ((real n - 3) * (5 / 100));
           penalty = (if frequency_type p = ''irregular'' then 5 / 10 else 1)
       in min 1 ((base + bonus) * penalty)))"
proof -
  have h: "3 \<le> length c5_group" by (simp add: c5_group_def)
  show ?thesis
    using h C5_confidence_of_group [OF h, of ascii_lib 0] by (rule conjI)
qed

text \<open>
  C5 as it is worded fails on three transactions with the gaps 29 and 31: the analysis gives
  the confidence 59/60, where the worded formula, with the bonus \<open>(n - 2) * 0.05\<close>, gives 1.
\<close>

theorem C5_counterexample:
  "map_sum id (map_option confidence) (analyze_transaction_group ascii_lib 0 c5_group)
     = Inr (Some (59 / 60)) \<and>
   map_sum id (map_option frequency_type) (analyze_transaction_group ascii_lib 0 c5_group)
     = Inr (Some ''monthly'') \<and>
   claimed_confidence (length c5_group) (gap_mean (intervals_of (sort_key date c5_group)))
     (gap_stddev (intervals_of (sort_key date c5_group))) False = 1"
proof -
  have h: "3 \<le> length c5_group" by (simp add: c5_group_def)
  obtain p where p: "analyze_transaction_group ascii_lib 0 c5_group = Inr (Some p)"
    and df: "detect_frequency (intervals_of (sort_key date c5_group)) =
      Some (frequency_days p, frequency_type p, confidence p)"
    using analyze_Some [OF h] by blast
  from df have "confidence p = 59 / 60" and "frequency_type p = ''monthly''"
    by (simp_all add: c5_group_intervals detect_frequency_29_31)
  moreover have "claimed_confidence (length c5_group)
     (gap_mean (intervals_of (sort_key date c5_group)))
     (gap_stddev (intervals_of (sort_key date c5_group))) False = 1"
    unfolding c5_group_intervals c5_group_length
    by (simp add: claimed_confidence_def gap_mean_def gap_stddev_def power2_eq_square)
  ultimately show ?thesis using p by simp
qed

subsection \<open>Grouping of transactions that are all similar to the first\<close>

lemma absorb_similar_all:
  assumes "\<forall>tx\<in>set rest. are_transactions_similar L tx1 tx = Inr True"
    and "distinct (map tx_id rest)"
    and "tx_id ` set rest \<inter> used = {}"
  shows "absorb_similar L tx1 rest (grp, used) = Inr (grp @ rest, used \<union> tx_id ` set rest)"
  using assms
proof (induction rest arbitrary: grp used)
  case Nil
  then show ?case by simp
next
  case (Cons tx2 rest)
  have "tx_id ` set rest \<inter> insert (tx_id tx2) used = {}"
    using Cons.prems by auto
  with Cons show ?case by auto
qed

lemma group_loop_all_used:
  "tx_id ` set txs \<subseteq> used \<Longrightarrow> group_loop L txs (groups, used) = Inr groups"
  by (induction txs) auto

lemma group_similar_single:
  assumes "\<forall>tx\<in>set rest. are_transactions_similar L t0 tx = Inr True"
    and "distinct (map tx_id (t0 # rest))"
    and "2 \<le> length rest"
  shows "group_similar_transactions L (t0 # rest) = Inr [t0 # rest]"
proof -
  have "absorb_similar L t0 rest ([t0], insert (tx_id t0) {}) =
        Inr ([t0] @ rest, insert (tx_id t0) {} \<union> tx_id ` set rest)"
    using assms by (intro absorb_similar_all) auto
  moreover have "group_loop L rest ([t0 # rest], insert (tx_id t0) {} \<union> tx_id ` set rest) = Inr [t0 # rest]"
    by (rule group_loop_all_used) auto
  ultimately show ?thesis
    using assms(3) by (simp add: group_similar_transactions_def min_occurrences_def)
qed

lemma single_group_detected:
  assumes db: "db = t0 # rest"
    and len: "2 \<le> length rest"
    and srt: "sorted (map date db)"
    and ids: "distinct (map tx_id db)"
    and inw: "\<forall>tx\<in>set db. \<not> is_recurring tx \<and> today - days_back \<le> date tx"
    and sim: "\<forall>tx\<in>set rest. are_transactions_similar L t0 tx = Inr True"
    and an: "analyze_transaction_group L 0 db = Inr (Some p)"
  shows "fst (detect_recurring_transactions L today db days_back) =
           Inr (if 6 / 10 \<le> confidence p then [p] else [])"
proof -
  have f: "filter (\<lambda>tx. today - days_back \<le> date tx \<and> \<not> is_recurring tx) db = db"
    using inw by (simp add: filter_id_conv)
  have s: "sort_key date db = db"
    using srt by (rule sort_key_id_if_sorted)
  have g: "group_similar_transactions L db = Inr [db]"
    unfolding db using sim ids len unfolding db by (rule group_similar_single)
  have l: "3 \<le> length db" using db len by simp
  show ?thesis
    using an l
    by (simp add: detect_recurring_transactions_def f s g min_occurrences_def Let_def)
qed

lemma sqrt_9171: "23 \<le> sqrt (9171 / 16)" "sqrt (9171 / 16) \<le> 24"
  by (auto intro: real_le_rsqrt real_le_lsqrt)

lemma detect_frequency_c1:
  "detect_frequency [3, 45, 9, 60] = Some (30, ''monthly'', 11 / 10 - sqrt (9171 / 16) / (117 / 2))"
  using sqrt_9171
  by (simp add: detect_frequency_def frequency_patterns_def py_int_def Let_def power2_eq_square)

lemma confidence_c1: "6 / 10 \<le> 11 / 10 - sqrt (9171 / 16) / (117 / 2)"
  using sqrt_9171 by simp

subsection \<open>Claim C1: the gaps 3, 45, 9, 60\<close>

lemma gaps_3_45_9_60_detected:
  assumes db: "db = [t0, t1, t2, t3, t4]"
    and gaps: "date t1 - date t0 = 3" "date t2 - date t1 = 45" "date t3 - date t2 = 9"
      "date t4 - date t3 = 60"
    and ids: "distinct (map tx_id db)"
    and inw: "\<forall>tx\<in>set db. \<not> is_recurring tx \<and> today - days_back \<le> date tx"
    and sim: "\<forall>tx\<in>set [t1, t2, t3, t4]. are_transactions_similar L t0 tx = Inr True"
  shows "\<exists>p. fst (detect_recurring_transactions L today db days_back) = Inr [p] \<and>
    frequency_type p = ''monthly'' \<and> frequency_days p = 30 \<and>
    confidence p = 11 / 10 - sqrt (9171 / 16) / (117 / 2) \<and> 6 / 10 \<le> confidence p \<and>
    transactions p = map tx_id db"
proof -
  have srt: "sorted (map date db)" using gaps by (simp add: db)
  then have s: "sort_key date db = db" by (rule sort_key_id_if_sorted)
  have iv: "intervals_of db = [3, 45, 9, 60]"
    using gaps by (simp add: db intervals_of_def upt_rec)
  have "3 \<le> length db" by (simp add: db)
  from analyze_Some [OF this, of L 0] obtain p
    where p: "analyze_transaction_group L 0 db = Inr (Some p)"
      and df: "detect_frequency (intervals_of (sort_key date db)) =
        Some (frequency_days p, frequency_type p, confidence p)"
      and tr: "transactions p = map tx_id (sort_key date db)"
    by blast
  from df have fields: "frequency_days p = 30" "frequency_type p = ''monthly''"
    "confidence p = 11 / 10 - sqrt (9171 / 16) / (117 / 2)"
    unfolding s iv detect_frequency_c1 by simp_all
  have c: "6 / 10 \<le> confidence p"
    unfolding fields by (rule confidence_c1)
  have "fst (detect_recurring_transactions L today db days_back) =
           Inr (if 6 / 10 \<le> confidence p then [p] else [])"
    using sim ids inw srt p
    by (intro single_group_detected [where ?t0.0 = t0 and rest = "[t1, t2, t3, t4]"])
       (simp_all add: db)
  with c have "fst (detect_recurring_transactions L today db days_back) = Inr [p]" by simp
  with fields c tr s show ?thesis by auto
qed

lemma c1_db_similar:
  "\<forall>tx\<in>set (tl c1_db). are_transactions_similar ascii_lib (hd c1_db) tx = Inr True"
  by (simp add: c1_db_def are_transactions_similar_def ascii_lib_def plain_tx_def
      similarity_threshold_def amount_tolerance_def truthy_def Let_def)

lemma c1_db_facts:
  "c1_db = [hd c1_db, c1_db ! 1, c1_db ! 2, c1_db ! 3, c1_db ! 4]"
  "date (c1_db ! 1) - date (hd c1_db) = 3" "date (c1_db ! 2) - date (c1_db ! 1) = 45"
  "date (c1_db ! 3) - date (c1_db ! 2) = 9" "date (c1_db ! 4) - date (c1_db ! 3) = 60"
  "distinct (map tx_id c1_db)"
  "\<forall>tx\<in>set c1_db. \<not> is_recurring tx \<and> 117 - 365 \<le> date tx"
  "\<forall>tx\<in>set [c1_db ! 1, c1_db ! 2, c1_db ! 3, c1_db ! 4].
      are_transactions_similar ascii_lib (hd c1_db) tx = Inr True"
  using c1_db_similar by (simp_all add: c1_db_def plain_tx_def)

text \<open>
  C1, as amended. Five transactions that are similar to the first of them and whose
  consecutive gaps are 3, 45, 9 and 60 days have the mean gap 29.25, which lies in the
  monthly bucket \<open>30 \<plusminus> 5\<close>. Frequency inference classifies the group as monthly with 30
  frequency days, applies no penalty, and gives the confidence \<open>1 - cv/2 + 0.1\<close>, about
  0.69, which is not below the cutoff 0.6: the detection call returns the pattern of this
  group.
\<close>

theorem C1_gaps_detected_as_monthly:
  assumes "db = [t0, t1, t2, t3, t4]"
    and "date t1 - date t0 = 3" "date t2 - date t1 = 45" "date t3 - date t2 = 9"
      "date t4 - date t3 = 60"
    and "distinct (map tx_id db)"
    and "\<forall>tx\<in>set db. \<not> is_recurring tx \<and> today - days_back \<le> date tx"
    and "\<forall>tx\<in>set [t1, t2, t3, t4]. are_transactions_similar L t0 tx = Inr True"
  shows "\<exists>p. fst (detect_recurring_transactions L today db days_back) = Inr [p] \<and>
    frequency_type p = ''monthly'' \<and> frequency_days p = 30 \<and>
    confidence p = 11 / 10 - sqrt (9171 / 16) / (117 / 2) \<and> 6 / 10 \<le> confidence p \<and>
    transactions p = map tx_id db"
  using assms by (rule gaps_3_45_9_60_detected)

theorem C1_gaps_detected_as_monthly_witness:
  "c1_db = [hd c1_db, c1_db ! 1, c1_db ! 2, c1_db ! 3, c1_db ! 4] \<and>
   date (c1_db ! 1) - date (hd c1_db) = 3 \<and> date (c1_db ! 2) - date (c1_db ! 1) = 45 \<and>
   date (c1_db ! 3) - date (c1_db ! 2) = 9 \<and> date (c1_db ! 4) - date (c1_db ! 3) = 60 \<and>
   distinct (map tx_id c1_db) \<and>
   list_all (\<lambda>tx. \<not> is_recurring tx \<and> 117 - 365 \<le> date tx) c1_db \<and>
   list_all (\<lambda>tx. are_transactions_similar ascii_lib (hd c1_db) tx = Inr True)
     [c1_db ! 1, c1_db ! 2, c1_db ! 3, c1_db ! 4] \<and>
   (\<exists>p. fst (detect_recurring_transactions ascii_lib 117 c1_db 365) = Inr [p] \<and>
    frequency_type p = ''monthly'' \<and> frequency_days p = 30 \<and>
    confidence p = 11 / 10 - sqrt (9171 / 16) / (117 / 2) \<and> 6 / 10 \<le> confidence p \<and>
    transactions p = map tx_id c1_db)"
  unfolding list_all_iff
  using c1_db_facts C1_gaps_detected_as_monthly [OF c1_db_facts]
  by - (intro conjI, assumption+)

text \<open>
  C1 as it is worded fails on these five transactions: the detection call returns one
  pattern for the group, of frequency type monthly, and its confidence is not below 0.6.
\<close>

theorem C1_counterexample:
  "map_sum id (map frequency_type) (fst (detect_recurring_transactions ascii_lib 117 c1_db 365))
     = Inr [''monthly''] \<and>
   map_sum id (map transactions) (fst (detect_recurring_transactions ascii_lib 117 c1_db 365))
     = Inr [[''n0'', ''n1'', ''n2'', ''n3'', ''n4'']] \<and>
   intervals_of c1_db = [3, 45, 9, 60] \<and>
   detect_frequency [3, 45, 9, 60] = Some (30, ''monthly'', 11 / 10 - sqrt (9171 / 16) / (117 / 2)) \<and>
   6 / 10 \<le> 11 / 10 - sqrt (9171 / 16) / (117 / 2)"
proof -
  obtain p where "fst (detect_recurring_transactions ascii_lib 117 c1_db 365) = Inr [p]"
    "frequency_type p = ''monthly''" "transactions p = map tx_id c1_db"
    using gaps_3_45_9_60_detected [OF c1_db_facts] by blast
  moreover have "map tx_id c1_db = [''n0'', ''n1'', ''n2'', ''n3'', ''n4'']"
    by (simp add: c1_db_def plain_tx_def)
  moreover have "intervals_of c1_db = [3, 45, 9, 60]"
    by (simp add: c1_db_def plain_tx_def intervals_of_def upt_rec)
  ultimately show ?thesis
    using detect_frequency_c1 confidence_c1 by simp
qed

subsection \<open>Claim C2: zero amounts in the similarity predicate\<close>

lemma similar_no_error:
  assumes "amount tx1 \<noteq> 0 \<or> amount tx2 \<noteq> 0"
  shows "\<exists>b. are_transactions_similar L tx1 tx2 = Inr b"
proof -
  have "max \<bar>amount tx1\<bar> \<bar>amount tx2\<bar> \<noteq> 0" using assms by auto
  then show ?thesis
    by (auto simp: are_transactions_similar_def Let_def split: option.splits)
qed




subsection \<open>Claim C3: marking the transactions of a pattern\<close>

lemma mark_result:
  assumes "those (map (UUID L) (transactions pattern)) = Some ids"
  shows "mark_transactions_as_recurring L k db pattern =
    (Inr (length (filter (\<lambda>tx. tx_id tx \<in> set ids) db)),
     map (\<lambda>tx. if tx_id tx \<in> set ids then marked L k pattern tx else tx) db)"
  using assms by (simp add: mark_transactions_as_recurring_def marked_def Let_def)

lemma mark_malformed:
  assumes "those (map (UUID L) (transactions pattern)) = None"
  shows "mark_transactions_as_recurring L k db pattern = (Inl ValueError, db)"
  using assms by (simp add: mark_transactions_as_recurring_def)

lemma c3_ids: "those (map (UUID ascii_lib) (transactions c3_pattern)) = Some [''a1'', ''a2'', ''a3'']"
  by (simp add: ascii_lib_def c3_pattern_def)

lemma c3_db_length: "length c3_db = 3"
  by (simp add: c3_db_def)

text \<open>
  C3, as amended. For a pattern whose identifiers are well-formed, marking updates every
  stored transaction whose identifier the pattern references: it sets \<open>is_recurring\<close>, sets
  \<open>recurring_pattern\<close> to the frequency type of the pattern and sets \<open>recurring_group_id\<close> to
  one group identifier, the same for all of them. Every other row is left as it was, and the
  result is the number of rows updated. Referenced identifiers that are not in the store
  are passed over: the operation does not fail for them and does not report them.
\<close>

theorem C3_mark_updates_found_rows:
  assumes "those (map (UUID L) (transactions pattern)) = Some ids"
  shows "fst (mark_transactions_as_recurring L k db pattern) =
           Inr (length (filter (\<lambda>tx. tx_id tx \<in> set ids) db)) \<and>
         length (snd (mark_transactions_as_recurring L k db pattern)) = length db \<and>
         (\<forall>i<length db.
            snd (mark_transactions_as_recurring L k db pattern) ! i =
              (if tx_id (db ! i) \<in> set ids
               then (db ! i)\<lparr>is_recurring := True,
                              recurring_pattern := Some (frequency_type pattern),
                              recurring_group_id := Some (uuid4 L k)\<rparr>
               else db ! i))"
  unfolding mark_result [OF assms] by (simp add: marked_def)

theorem C3_mark_updates_found_rows_witness:
  "those (map (UUID ascii_lib) (transactions c3_pattern)) = Some [''a1'', ''a2'', ''a3''] \<and>
   fst (mark_transactions_as_recurring ascii_lib 0 c3_db c3_pattern) =
     Inr (length (filter (\<lambda>tx. tx_id tx \<in> set [''a1'', ''a2'', ''a3'']) c3_db)) \<and>
   length (snd (mark_transactions_as_recurring ascii_lib 0 c3_db c3_pattern)) = length c3_db \<and>
   snd (mark_transactions_as_recurring ascii_lib 0 c3_db c3_pattern) ! 0 =
     (c3_db ! 0)\<lparr>is_recurring := True, recurring_pattern := Some ''weekly'',
                   recurring_group_id := Some (uuid4 ascii_lib 0)\<rparr> \<and>
   snd (mark_transactions_as_recurring ascii_lib 0 c3_db c3_pattern) ! 2 = c3_db ! 2"
proof -
  note t = C3_mark_updates_found_rows [OF c3_ids, of 0 c3_db]
  have i0: "tx_id (c3_db ! 0) \<in> set [''a1'', ''a2'', ''a3'']"
    and i2: "tx_id (c3_db ! 2) \<notin> set [''a1'', ''a2'', ''a3'']"
    and ft: "frequency_type c3_pattern = ''weekly''"
    by (simp_all add: c3_db_def plain_tx_def c3_pattern_def)
  from t have "snd (mark_transactions_as_recurring ascii_lib 0 c3_db c3_pattern) ! 0 =
     (c3_db ! 0)\<lparr>is_recurring := True, recurring_pattern := Some ''weekly'',
                   recurring_group_id := Some (uuid4 ascii_lib 0)\<rparr>"
    using i0 ft c3_db_length by (simp del: set_simps)
  moreover from t have "snd (mark_transactions_as_recurring ascii_lib 0 c3_db c3_pattern) ! 2 = c3_db ! 2"
    using i2 c3_db_length by (simp del: set_simps)
  ultimately show ?thesis using t c3_ids by blast
qed

text \<open>
  C3 as it is worded fails on a pattern that references \<open>a1\<close>, \<open>a2\<close> and \<open>a3\<close> against a
  store without \<open>a3\<close>: marking returns the count 2 and has updated the two rows found.
\<close>

theorem C3_counterexample:
  "''a3'' \<notin> tx_id ` set c3_db \<and>
   fst (mark_transactions_as_recurring ascii_lib 0 c3_db c3_pattern) = Inr 2 \<and>
   map is_recurring (snd (mark_transactions_as_recurring ascii_lib 0 c3_db c3_pattern))
     = [True, True, False] \<and>
   map recurring_pattern (snd (mark_transactions_as_recurring ascii_lib 0 c3_db c3_pattern))
     = [Some ''weekly'', Some ''weekly'', None]"
  unfolding mark_result [OF c3_ids]
  by (simp add: c3_db_def plain_tx_def marked_def c3_pattern_def)

subsection \<open>The forecast loop\<close>

lemma extend_predictions_steps:
  assumes "0 < step"
  shows "n = nat ((target - next_date) div step + 1) \<Longrightarrow>
    extend_predictions mk step target next_date preds =
      Some (preds @ map (\<lambda>i. mk (next_date + int i * step)) [0..<n])"
proof (induction n arbitrary: next_date preds)
  case 0
  then have "(target - next_date) div step < 0" by simp
  then have "target - next_date < 0" using assms
    by (simp add: pos_imp_zdiv_neg_iff)
  then show ?case
    by (subst extend_predictions.simps) simp
next
  case (Suc n)
  have pos: "0 \<le> (target - next_date) div step" using Suc.prems by linarith
  then have le: "next_date \<le> target" using assms
    by (simp add: pos_imp_zdiv_nonneg_iff)
  have "(target - (next_date + step)) div step = (target - next_date) div step - 1"
    using assms div_add_self2 [of step "target - (next_date + step)"] by (simp add: algebra_simps)
  then have n: "n = nat ((target - (next_date + step)) div step + 1)"
    using Suc.prems by linarith
  have "extend_predictions mk step target next_date preds =
        extend_predictions mk step target (next_date + step) (preds @ [mk next_date])"
    using le by (subst extend_predictions.simps) simp
  also have "\<dots> = Some ((preds @ [mk next_date]) @
        map (\<lambda>i. mk (next_date + step + int i * step)) [0..<n])"
    by (rule Suc.IH [OF n])
  also have "(preds @ [mk next_date]) @ map (\<lambda>i. mk (next_date + step + int i * step)) [0..<n]
     = preds @ map (\<lambda>i. mk (next_date + int i * step)) [0..<Suc n]"
  proof -
    have "[0..<Suc n] = 0 # map Suc [0..<n]"
      by (simp add: upt_conv_Cons map_Suc_upt del: upt_Suc)
    then show ?thesis
      by (simp add: comp_def algebra_simps del: upt_Suc)
  qed
  finally show ?case .
qed

lemma foldl_latest:
  "foldl (\<lambda>best tx. if date best < date tx then tx else best) t ts \<in> set (t # ts) \<and>
   (\<forall>x\<in>set (t # ts). date x \<le> date (foldl (\<lambda>best tx. if date best < date tx then tx else best) t ts))"
proof (induction ts arbitrary: t)
  case Nil
  then show ?case by simp
next
  case (Cons a ts)
  show ?case
    using Cons.IH [of "if date t < date a then a else t"]
    by (auto split: if_splits)
qed

lemma last_tx_of_Some:
  assumes "\<exists>tx\<in>set db. recurring_group_id tx = Some g"
  shows "\<exists>t. last_tx_of db g = Some t \<and> t \<in> set db \<and> recurring_group_id t = Some g \<and>
    (\<forall>tx\<in>set db. recurring_group_id tx = Some g \<longrightarrow> date tx \<le> date t)"
proof -
  let ?rows = "filter (\<lambda>tx. recurring_group_id tx = Some g) db"
  from assms have "?rows \<noteq> []" by (simp add: filter_empty_conv)
  then obtain t ts where r: "?rows = t # ts" by (cases ?rows) auto
  let ?l = "foldl (\<lambda>best tx. if date best < date tx then tx else best) t ts"
  have l: "last_tx_of db g = Some ?l" by (simp add: last_tx_of_def r)
  have "?l \<in> set ?rows" and "\<forall>x\<in>set ?rows. date x \<le> date ?l"
    using foldl_latest [of t ts] unfolding r by blast+
  then show ?thesis using l by auto
qed

lemma remdups_all_equal: "xs \<noteq> [] \<Longrightarrow> \<forall>x\<in>set xs. x = a \<Longrightarrow> remdups xs = [a]"
proof (induction xs)
  case Nil
  then show ?case by simp
next
  case (Cons x xs)
  then show ?case by (cases xs) auto
qed

lemma sorted_steps: "sorted (map (\<lambda>i. D + 7 * (int i + 1)) [0..<n])"
  by (simp add: sorted_iff_nth_mono)

lemma weekly_forecast:
  assumes one: "\<forall>tx\<in>set db. is_recurring tx \<and> recurring_group_id tx \<noteq> None \<longrightarrow>
                  recurring_group_id tx = Some g \<and> recurring_pattern tx = Some ''weekly''"
    and ex: "\<exists>tx\<in>set db. is_recurring tx \<and> recurring_group_id tx = Some g"
    and ub: "\<forall>tx\<in>set db. recurring_group_id tx = Some g \<longrightarrow> date tx \<le> D"
    and at: "\<exists>tx\<in>set db. recurring_group_id tx = Some g \<and> date tx = D"
  shows "\<exists>ps. fst (predict_next_transactions today db days_ahead) = Some ps \<and>
    map predicted_date ps =
      map (\<lambda>i. D + 7 * (int i + 1)) [0..<nat ((today + days_ahead - D) div 7)] \<and>
    list_all (\<lambda>p. p_frequency_type p = Some ''weekly'' \<and> p_recurring_group_id p = g \<and>
                   p_confidence p = 8 / 10) ps"
proof -
  let ?rows = "filter (\<lambda>tx. is_recurring tx = True \<and> recurring_group_id tx \<noteq> None) db"
  let ?pairs = "map (\<lambda>tx. (recurring_group_id tx, recurring_pattern tx)) ?rows"
  have "?pairs \<noteq> []" using ex by (auto simp: filter_empty_conv)
  moreover have "\<forall>x\<in>set ?pairs. x = (Some g, Some ''weekly'')" using one by auto
  ultimately have groups: "remdups ?pairs = [(Some g, Some ''weekly'')]"
    by (rule remdups_all_equal)
  from at have "\<exists>tx\<in>set db. recurring_group_id tx = Some g" by blast
  from last_tx_of_Some [OF this] obtain t where t: "last_tx_of db g = Some t"
    and tin: "t \<in> set db" "recurring_group_id t = Some g"
    and tmax: "\<forall>tx\<in>set db. recurring_group_id tx = Some g \<longrightarrow> date tx \<le> date t"
    by blast
  have "date t \<le> D" using ub tin by blast
  moreover have "D \<le> date t" using at tmax by blast
  ultimately have d: "date t = D" by simp
  let ?n = "nat ((today + days_ahead - D) div 7)"
  let ?mk = "make_prediction t (Some ''weekly'') g"
  let ?ps = "map (\<lambda>i. ?mk (D + 7 + int i * 7)) [0..<?n]"
  have n: "?n = nat ((today + days_ahead - (D + 7)) div 7 + 1)"
    using div_add_self2 [of 7 "today + days_ahead - (D + 7)"] by (simp add: algebra_simps)
  have loop: "extend_predictions ?mk 7 (today + days_ahead) (D + 7) [] = Some ([] @ ?ps)"
    by (rule extend_predictions_steps [OF _ n]) simp
  have dates: "map predicted_date ?ps = map (\<lambda>i. D + 7 * (int i + 1)) [0..<?n]"
    by (simp add: make_prediction_def comp_def algebra_simps)
  then have "sorted (map predicted_date ?ps)" by (simp only: sorted_steps)
  then have srt: "sort_key predicted_date ?ps = ?ps" by (rule sort_key_id_if_sorted)
  have "fst (predict_next_transactions today db days_ahead) = Some ?ps"
    unfolding predict_next_transactions_def Let_def groups
    using loop by (simp add: t d frequency_map_get_def srt)
  moreover have "list_all (\<lambda>p. p_frequency_type p = Some ''weekly'' \<and> p_recurring_group_id p = g \<and>
                   p_confidence p = 8 / 10) ?ps"
    by (simp add: list_all_iff make_prediction_def)
  ultimately show ?thesis using dates by blast
qed

lemma upt_0_4: "[0..<4] = [0, 1, 2, 3]"
  by code_simp

lemma upt_0_5: "[0..<5] = [0, 1, 2, 3, 4]"
  by code_simp

lemma c8_db_facts:
  "\<forall>tx\<in>set c8_db. is_recurring tx \<and> recurring_group_id tx \<noteq> None \<longrightarrow>
      recurring_group_id tx = Some ''g1'' \<and> recurring_pattern tx = Some ''weekly''"
  "\<exists>tx\<in>set c8_db. is_recurring tx \<and> recurring_group_id tx = Some ''g1''"
  "\<forall>tx\<in>set c8_db. recurring_group_id tx = Some ''g1'' \<longrightarrow> date tx \<le> 0"
  "\<exists>tx\<in>set c8_db. recurring_group_id tx = Some ''g1'' \<and> date tx = 0"
  by (simp_all add: c8_db_def recurring_tx_def plain_tx_def)

subsection \<open>Claim C8: the forecast of a weekly group\<close>

text \<open>
  C8, as amended. Let the store hold one marked group, with the pattern weekly, whose most
  recent transaction is dated \<open>D\<close>. The forecast with a lookahead of 30 days ends, and
  returns in ascending order one record for each date \<open>D + 7k\<close>, \<open>k \<ge> 1\<close>, that is not later
  than 30 days after today: \<open>(today + 30 - D) div 7\<close> records. They are the four records
  dated \<open>D + 7\<close>, \<open>D + 14\<close>, \<open>D + 21\<close> and \<open>D + 28\<close> when \<open>D\<close> lies between four days before
  today and two days after it, as it does when \<open>D\<close> is today.
\<close>

theorem C8_weekly_forecast:
  assumes "\<forall>tx\<in>set db. is_recurring tx \<and> recurring_group_id tx \<noteq> None \<longrightarrow>
                  recurring_group_id tx = Some g \<and> recurring_pattern tx = Some ''weekly''"
    and "\<exists>tx\<in>set db. is_recurring tx \<and> recurring_group_id tx = Some g"
    and "\<forall>tx\<in>set db. recurring_group_id tx = Some g \<longrightarrow> date tx \<le> D"
    and "\<exists>tx\<in>set db. recurring_group_id tx = Some g \<and> date tx = D"
  shows "\<exists>ps. fst (predict_next_transactions today db 30) = Some ps \<and>
    map predicted_date ps = map (\<lambda>i. D + 7 * (int i + 1)) [0..<nat ((today + 30 - D) div 7)] \<and>
    sorted (map predicted_date ps) \<and>
    (today - 4 \<le> D \<and> D \<le> today + 2 \<longrightarrow>
       map predicted_date ps = [D + 7, D + 14, D + 21, D + 28])"
proof -
  obtain ps where ps: "fst (predict_next_transactions today db 30) = Some ps"
    and dates: "map predicted_date ps =
      map (\<lambda>i. D + 7 * (int i + 1)) [0..<nat ((today + 30 - D) div 7)]"
    using weekly_forecast [OF assms, of today 30] by (elim exE conjE)
  have srt: "sorted (map predicted_date ps)"
    unfolding dates by (rule sorted_steps)
  have "map predicted_date ps = [D + 7, D + 14, D + 21, D + 28]"
    if "today - 4 \<le> D" "D \<le> today + 2"
  proof -
    from that have "(today + 30 - D) div 7 = 4" by linarith
    then show ?thesis unfolding dates by (simp add: upt_0_4)
  qed
  then have win: "today - 4 \<le> D \<and> D \<le> today + 2 \<longrightarrow>
       map predicted_date ps = [D + 7, D + 14, D + 21, D + 28]" by simp
  show ?thesis
    by (rule exI [of _ ps]) (intro conjI ps dates srt win)
qed

theorem C8_weekly_forecast_witness:
  "list_all (\<lambda>tx. \<not> (is_recurring tx \<and> recurring_group_id tx \<noteq> None) \<or>
      recurring_group_id tx = Some ''g1'' \<and> recurring_pattern tx = Some ''weekly'') c8_db \<and>
   list_ex (\<lambda>tx. is_recurring tx \<and> recurring_group_id tx = Some ''g1'') c8_db \<and>
   list_all (\<lambda>tx. recurring_group_id tx \<noteq> Some ''g1'' \<or> date tx \<le> 0) c8_db \<and>
   list_ex (\<lambda>tx. recurring_group_id tx = Some ''g1'' \<and> date tx = 0) c8_db \<and>
   (\<exists>ps. fst (predict_next_transactions 0 c8_db 30) = Some ps \<and>
      map predicted_date ps = [7, 14, 21, 28])"
proof -
  from C8_weekly_forecast [OF c8_db_facts, of 0] obtain ps
    where ps: "fst (predict_next_transactions 0 c8_db 30) = Some ps"
      and win: "(0::int) - 4 \<le> 0 \<and> (0::int) \<le> 0 + 2 \<longrightarrow>
        map predicted_date ps = [0 + 7, 0 + 14, 0 + 21, 0 + 28]"
    by (elim exE conjE)
  from win have "map predicted_date ps = [7, 14, 21, 28]" by simp
  with ps have r: "\<exists>ps. fst (predict_next_transactions 0 c8_db 30) = Some ps \<and>
      map predicted_date ps = [7, 14, 21, 28]" by (intro exI [of _ ps] conjI)
  have h: "list_all (\<lambda>tx. \<not> (is_recurring tx \<and> recurring_group_id tx \<noteq> None) \<or>
      recurring_group_id tx = Some ''g1'' \<and> recurring_pattern tx = Some ''weekly'') c8_db"
    "list_ex (\<lambda>tx. is_recurring tx \<and> recurring_group_id tx = Some ''g1'') c8_db"
    "list_all (\<lambda>tx. recurring_group_id tx \<noteq> Some ''g1'' \<or> date tx \<le> 0) c8_db"
    "list_ex (\<lambda>tx. recurring_group_id tx = Some ''g1'' \<and> date tx = 0) c8_db"
    by (simp_all add: c8_db_def recurring_tx_def plain_tx_def)
  show ?thesis by (intro conjI h r)
qed

text \<open>
  C8 as it is worded fails when the most recent transaction is ten days old: the forecast
  has the five records dated 7, 14, 21, 28 and 35 days after that transaction.
\<close>

theorem C8_counterexample:
  "map_option (map predicted_date) (fst (predict_next_transactions 10 c8_db 30))
     = Some [7, 14, 21, 28, 35]"
proof -
  from weekly_forecast [OF c8_db_facts, of 10 30] obtain ps
    where ps: "fst (predict_next_transactions 10 c8_db 30) = Some ps"
      and dates: "map predicted_date ps =
        map (\<lambda>i. 0 + 7 * (int i + 1)) [0..<nat ((10 + 30 - 0) div 7)]"
    by (elim exE conjE)
  have "nat (((10::int) + 30 - 0) div 7) = 5" by simp
  with dates have "map predicted_date ps = [7, 14, 21, 28, 35]"
    by (simp only: upt_0_5) simp
  with ps show ?thesis by simp
qed

subsection \<open>Claim C10: detection does not write\<close>











subsection \<open>Invariants of the grouping and of the detection loop\<close>

lemma distinct_mset_le:
  assumes "mset ys \<subseteq># mset xs" and "distinct xs"
  shows "distinct ys"
proof -
  have "count (mset ys) a \<le> 1" for a
  proof -
    have "count (mset ys) a \<le> count (mset xs) a"
      using assms(1) by (rule mset_subset_eq_count)
    also have "\<dots> \<le> 1"
      using assms(2) by (simp add: distinct_count_atmost_1)
    finally show ?thesis .
  qed
  then have le1: "count (mset ys) a \<le> 1" for a .
  have "count (mset ys) a = (if a \<in> set ys then 1 else 0)" for a
  proof (cases "a \<in> set ys")
    case True
    then have p: "0 < count (mset ys) a" by simp
    have "count (mset ys) a = 1" using p le1 [of a] by linarith
    then show ?thesis using True by (simp only: if_True)
  next
    case False
    then show ?thesis by (simp add: count_eq_zero_iff)
  qed
  then show ?thesis by (simp only: distinct_count_atmost_1 simp_thms)
qed

lemma absorb_similar_inv:
  "absorb_similar L tx1 rest (grp, used) = Inr (grp', used') \<Longrightarrow>
   \<exists>new. grp' = grp @ new \<and> distinct (map tx_id new) \<and> tx_id ` set new \<inter> used = {} \<and>
     used' = used \<union> tx_id ` set new"
proof (induction rest arbitrary: grp used)
  case Nil
  then show ?case by simp
next
  case (Cons tx2 rest)
  show ?case
  proof (cases "tx_id tx2 \<in> used")
    case True
    with Cons.prems have "absorb_similar L tx1 rest (grp, used) = Inr (grp', used')" by simp
    then show ?thesis by (rule Cons.IH)
  next
    case False
    show ?thesis
    proof (cases "are_transactions_similar L tx1 tx2")
      case (Inl e)
      with Cons.prems False show ?thesis by simp
    next
      case (Inr similar)
      show ?thesis
      proof (cases similar)
        case True
        with Cons.prems False Inr
        have "absorb_similar L tx1 rest (grp @ [tx2], insert (tx_id tx2) used) = Inr (grp', used')"
          by simp
        from Cons.IH [OF this] obtain new where
          n: "grp' = (grp @ [tx2]) @ new" "distinct (map tx_id new)"
            "tx_id ` set new \<inter> insert (tx_id tx2) used = {}"
            "used' = insert (tx_id tx2) used \<union> tx_id ` set new"
          by blast
        have "grp' = grp @ (tx2 # new)" using n(1) by simp
        moreover have "distinct (map tx_id (tx2 # new))" using n(2,3) by auto
        moreover have "tx_id ` set (tx2 # new) \<inter> used = {}" using n(3) False by auto
        moreover have "used' = used \<union> tx_id ` set (tx2 # new)" using n(4) by auto
        ultimately show ?thesis by (intro exI [of _ "tx2 # new"] conjI)
      next
        case no: False
        with Cons.prems False Inr
        have "absorb_similar L tx1 rest (grp, used) = Inr (grp', used')" by simp
        then show ?thesis by (rule Cons.IH)
      qed
    qed
  qed
qed

lemma group_loop_inv:
  "group_loop L txs (groups, used) = Inr groups' \<Longrightarrow>
   \<exists>new. groups' = groups @ new \<and> distinct (concat (map (map tx_id) new)) \<and>
     set (concat (map (map tx_id) new)) \<inter> used = {} \<and> (\<forall>g\<in>set new. 3 \<le> length g)"
proof (induction txs arbitrary: groups used)
  case Nil
  then show ?case by simp
next
  case (Cons tx1 rest)
  show ?case
  proof (cases "tx_id tx1 \<in> used")
    case True
    with Cons.prems have "group_loop L rest (groups, used) = Inr groups'" by simp
    then show ?thesis by (rule Cons.IH)
  next
    case False
    show ?thesis
    proof (cases "absorb_similar L tx1 rest ([tx1], insert (tx_id tx1) used)")
      case (Inl e)
      with Cons.prems False show ?thesis by simp
    next
      case (Inr r)
      obtain grp used' where r: "r = (grp, used')" by (cases r)
      from absorb_similar_inv [OF Inr [unfolded r]] obtain new where
        n: "grp = [tx1] @ new" "distinct (map tx_id new)"
          "tx_id ` set new \<inter> insert (tx_id tx1) used = {}"
          "used' = insert (tx_id tx1) used \<union> tx_id ` set new"
        by blast
      have dg: "distinct (map tx_id grp)" using n by auto
      have gu: "tx_id ` set grp \<inter> used = {}" using n False by auto
      have gu': "tx_id ` set grp \<subseteq> used'" "used \<subseteq> used'" using n by auto
      let ?groups = "if length grp \<ge> min_occurrences then groups @ [grp] else groups"
      from Cons.prems False Inr r
      have "group_loop L rest (?groups, used') = Inr groups'" by simp
      from Cons.IH [OF this] obtain new' where
        n': "groups' = ?groups @ new'" "distinct (concat (map (map tx_id) new'))"
          "set (concat (map (map tx_id) new')) \<inter> used' = {}" "\<forall>g\<in>set new'. 3 \<le> length g"
        by blast
      let ?I = "set (concat (map (map tx_id) new'))"
      have I: "?I \<inter> used' = {}" by (rule n'(3))
      have g1: "set (map tx_id grp) \<inter> ?I = {}" using I gu'(1) by (simp only: set_map) blast
      have g2: "?I \<inter> used = {}" using I gu'(2) by blast
      have g3: "set (map tx_id grp) \<inter> used = {}" using gu by (simp only: set_map)
      show ?thesis
      proof (cases "length grp \<ge> min_occurrences")
        case True
        have "groups' = groups @ (grp # new')" using n'(1) True by simp
        moreover have "distinct (concat (map (map tx_id) (grp # new')))"
          using n'(2) dg g1 by simp
        moreover have "set (concat (map (map tx_id) (grp # new'))) \<inter> used = {}"
        proof -
          have "set (concat (map (map tx_id) (grp # new'))) = set (map tx_id grp) \<union> ?I"
            by simp
          then show ?thesis using g2 g3 by blast
        qed
        moreover have "\<forall>g\<in>set (grp # new'). 3 \<le> length g"
          using n'(4) True by (simp add: min_occurrences_def)
        ultimately show ?thesis by (intro exI [of _ "grp # new'"] conjI)
      next
        case no: False
        have "groups' = groups @ new'" using n'(1) no by simp
        then show ?thesis using n'(2,4) g2 by (intro exI [of _ new'] conjI)
      qed
    qed
  qed
qed

lemma group_similar_transactions_inv:
  assumes "group_similar_transactions L txs = Inr groups"
  shows "distinct (concat (map (map tx_id) groups))" and "\<forall>g\<in>set groups. 3 \<le> length g"
  using group_loop_inv [OF assms [unfolded group_similar_transactions_def]] by auto

lemma analyze_Some_ids:
  assumes "analyze_transaction_group L k g = Inr (Some p)"
  shows "transactions p = map tx_id (sort_key date g)" and "3 \<le> length g"
proof -
  show len: "3 \<le> length g"
  proof (rule ccontr)
    assume "\<not> 3 \<le> length g"
    then have "analyze_transaction_group L k g = Inr None"
      by (simp add: analyze_transaction_group_def min_occurrences_def)
    with assms show False by simp
  qed
  from analyze_Some [OF len, of L k] obtain p' where
    "analyze_transaction_group L k g = Inr (Some p')"
    "transactions p' = map tx_id (sort_key date g)"
    by (elim exE conjE)
  with assms show "transactions p = map tx_id (sort_key date g)" by simp
qed

lemma detect_loop_inv:
  "detect_loop L gs (k, patterns) = Inr patterns' \<Longrightarrow>
   \<exists>new. patterns' = patterns @ new \<and>
     mset (concat (map transactions new)) \<subseteq># mset (concat (map (map tx_id) gs)) \<and>
     (\<forall>p\<in>set new. 3 \<le> length (transactions p))"
proof (induction gs arbitrary: k patterns)
  case Nil
  then show ?case by simp
next
  case (Cons g gs)
  let ?G = "mset (concat (map (map tx_id) gs))"
  have step: "\<exists>new. patterns' = patterns @ new \<and>
     mset (concat (map transactions new)) \<subseteq># mset (concat (map (map tx_id) (g # gs))) \<and>
     (\<forall>p\<in>set new. 3 \<le> length (transactions p))"
    if "detect_loop L gs (k', patterns) = Inr patterns'" for k'
  proof -
    from Cons.IH [OF that] obtain new where
      n: "patterns' = patterns @ new" "mset (concat (map transactions new)) \<subseteq># ?G"
        "\<forall>p\<in>set new. 3 \<le> length (transactions p)"
      by blast
    have "mset (concat (map transactions new)) \<subseteq># mset (concat (map (map tx_id) (g # gs)))"
      using n(2) by (simp add: subset_mset.add_increasing)
    with n(1,3) show ?thesis by blast
  qed
  show ?case
  proof (cases "length g \<ge> min_occurrences")
    case False
    with Cons.prems have "detect_loop L gs (k, patterns) = Inr patterns'" by simp
    then show ?thesis by (rule step)
  next
    case True
    show ?thesis
    proof (cases "analyze_transaction_group L k g")
      case (Inl e)
      with Cons.prems True show ?thesis by simp
    next
      case (Inr r)
      show ?thesis
      proof (cases r)
        case None
        with Cons.prems True Inr have "detect_loop L gs (k, patterns) = Inr patterns'" by simp
        then show ?thesis by (rule step)
      next
        case (Some p)
        have ids: "transactions p = map tx_id (sort_key date g)" and len: "3 \<le> length g"
          using analyze_Some_ids [OF Inr [unfolded Some]] by simp_all
        show ?thesis
        proof (cases "confidence p \<ge> 6 / 10")
          case no: False
          with Cons.prems True Inr Some
          have "detect_loop L gs (Suc k, patterns) = Inr patterns'" by simp
          then show ?thesis by (rule step)
        next
          case yes: True
          with Cons.prems True Inr Some
          have "detect_loop L gs (Suc k, patterns @ [p]) = Inr patterns'" by simp
          from Cons.IH [OF this] obtain new where
            n: "patterns' = (patterns @ [p]) @ new"
              "mset (concat (map transactions new)) \<subseteq># ?G"
              "\<forall>p\<in>set new. 3 \<le> length (transactions p)"
            by blast
          have "patterns' = patterns @ (p # new)" using n(1) by simp
          moreover have "mset (concat (map transactions (p # new))) \<subseteq>#
              mset (concat (map (map tx_id) (g # gs)))"
            using n(2) by (simp add: ids)
          moreover have "\<forall>q\<in>set (p # new). 3 \<le> length (transactions q)"
            using n(3) len by (simp add: ids)
          ultimately show ?thesis by (intro exI [of _ "p # new"] conjI)
        qed
      qed
    qed
  qed
qed

lemma mset_concat_map_cong:
  assumes "mset xs = mset ys"
  shows "mset (concat (map f xs)) = mset (concat (map f ys))"
proof -
  have "mset (concat (map f zs)) = sum_mset (image_mset (\<lambda>z. mset (f z)) (mset zs))" for zs
    by (induction zs) simp_all
  then show ?thesis using assms by simp
qed

lemma distinct_concat_disjoint:
  "distinct (concat xss) \<Longrightarrow> i < j \<Longrightarrow> j < length xss \<Longrightarrow> set (xss ! i) \<inter> set (xss ! j) = {}"
proof (induction xss arbitrary: i j)
  case Nil
  then show ?case by simp
next
  case (Cons xs xss)
  obtain j' where j: "j = Suc j'" using Cons.prems(2) by (cases j) auto
  show ?case
  proof (cases i)
    case 0
    have "xss ! j' \<in> set xss" using Cons.prems(3) j by simp
    then have "set (xss ! j') \<subseteq> set (concat xss)" by auto
    then show ?thesis using Cons.prems(1) 0 j by auto
  next
    case (Suc i')
    then show ?thesis using Cons.prems j Cons.IH [of i' j'] by simp
  qed
qed

lemma detected_patterns_disjoint:
  assumes "fst (detect_recurring_transactions L today db days_back) = Inr patterns"
  shows "(\<forall>p\<in>set patterns. 3 \<le> length (transactions p) \<and> distinct (transactions p)) \<and>
    distinct (concat (map transactions patterns)) \<and>
    (\<forall>i j. i < j \<and> j < length patterns \<longrightarrow>
       set (transactions (patterns ! i)) \<inter> set (transactions (patterns ! j)) = {})"
proof -
  let ?rows = "sort_key date (filter (\<lambda>tx. date tx \<ge> today - days_back \<and> is_recurring tx = False) db)"
  have main: "(\<forall>p\<in>set patterns. 3 \<le> length (transactions p)) \<and>
    distinct (concat (map transactions patterns))"
  proof (cases "length ?rows < min_occurrences")
    case True
    with assms have "patterns = []"
      by (simp add: detect_recurring_transactions_def Let_def)
    then show ?thesis by simp
  next
    case False
    show ?thesis
    proof (cases "group_similar_transactions L ?rows")
      case (Inl e)
      with assms False show ?thesis
        by (simp add: detect_recurring_transactions_def Let_def)
    next
      case (Inr groups)
      note g = group_similar_transactions_inv [OF Inr]
      show ?thesis
      proof (cases "detect_loop L groups (0, [])")
        case (Inl e)
        with assms False Inr show ?thesis
          by (simp add: detect_recurring_transactions_def Let_def)
      next
        case ps: (Inr ps)
        with assms False Inr have p: "patterns = sort_key (\<lambda>p. - confidence p) ps"
          by (simp add: detect_recurring_transactions_def Let_def)
        from detect_loop_inv [OF ps] have
          sub: "mset (concat (map transactions ps)) \<subseteq># mset (concat (map (map tx_id) groups))"
          and len: "\<forall>p\<in>set ps. 3 \<le> length (transactions p)"
          by auto
        have "distinct (concat (map transactions ps))"
          using sub g(1) by (rule distinct_mset_le)
        moreover have "mset (concat (map transactions patterns)) = mset (concat (map transactions ps))"
          unfolding p by (rule mset_concat_map_cong) simp
        ultimately have "distinct (concat (map transactions patterns))"
          by (metis mset_eq_imp_distinct_iff)
        moreover have "\<forall>p\<in>set patterns. 3 \<le> length (transactions p)"
          using len unfolding p by simp
        ultimately show ?thesis by simp
      qed
    qed
  qed
  then have d: "distinct (concat (map transactions patterns))" by simp
  have each: "distinct (transactions p)" if "p \<in> set patterns" for p
    using d that by (simp add: distinct_concat_iff)
  have dis: "set (transactions (patterns ! i)) \<inter> set (transactions (patterns ! j)) = {}"
    if "i < j \<and> j < length patterns" for i j
    using distinct_concat_disjoint [OF d, of i j] that by simp
  show ?thesis using main each dis by blast
qed

subsection \<open>Detection returns on stored transactions\<close>

lemma absorb_similar_total:
  "\<forall>tx\<in>set rest. \<exists>b. are_transactions_similar L tx1 tx = Inr b \<Longrightarrow>
   \<exists>r. absorb_similar L tx1 rest (grp, used) = Inr r"
proof (induction rest arbitrary: grp used)
  case Nil
  show ?case by simp
next
  case (Cons tx2 rest)
  from Cons.prems obtain b where b: "are_transactions_similar L tx1 tx2 = Inr b" by auto
  have r: "\<forall>tx\<in>set rest. \<exists>b. are_transactions_similar L tx1 tx = Inr b"
    using Cons.prems by simp
  show ?case
    using b Cons.IH [OF r, of grp used]
      Cons.IH [OF r, of "grp @ [tx2]" "insert (tx_id tx2) used"]
    by simp
qed

lemma group_loop_total:
  "\<forall>x\<in>set txs. \<forall>y\<in>set txs. \<exists>b. are_transactions_similar L x y = Inr b \<Longrightarrow>
   \<exists>gs. group_loop L txs (groups, used) = Inr gs"
proof (induction txs arbitrary: groups used)
  case Nil
  show ?case by simp
next
  case (Cons tx1 rest)
  have r: "\<forall>x\<in>set rest. \<forall>y\<in>set rest. \<exists>b. are_transactions_similar L x y = Inr b"
    using Cons.prems by simp
  have "\<forall>tx\<in>set rest. \<exists>b. are_transactions_similar L tx1 tx = Inr b"
    using Cons.prems by simp
  from absorb_similar_total [OF this, of "[tx1]" "insert (tx_id tx1) used"]
  obtain grp used' where
    a: "absorb_similar L tx1 rest ([tx1], insert (tx_id tx1) used) = Inr (grp, used')"
    by (metis surj_pair)
  show ?case
    using a Cons.IH [OF r, of groups used]
      Cons.IH [OF r, of "if length grp \<ge> min_occurrences then groups @ [grp] else groups" used']
    by simp
qed

lemma analyze_total: "\<exists>r. analyze_transaction_group L k g = Inr r"
proof (cases "3 \<le> length g")
  case True
  from analyze_Some [OF this, of L k] show ?thesis by blast
next
  case False
  then show ?thesis by (simp add: analyze_transaction_group_def min_occurrences_def)
qed

lemma detect_loop_total: "\<exists>ps. detect_loop L gs (k, patterns) = Inr ps"
proof (induction gs arbitrary: k patterns)
  case Nil
  show ?case by simp
next
  case (Cons g gs)
  obtain r where r: "analyze_transaction_group L k g = Inr r"
    using analyze_total by blast
  show ?case
    using r Cons.IH [of k patterns] Cons.IH [of "Suc k" patterns]
      Cons.IH [of "Suc k" "patterns @ [the r]"]
    by (cases r) simp_all
qed

lemma detect_total:
  assumes "\<forall>tx\<in>set db. amount tx \<noteq> 0"
  shows "\<exists>patterns. fst (detect_recurring_transactions L today db days_back) = Inr patterns"
proof -
  let ?rows = "sort_key date (filter (\<lambda>tx. date tx \<ge> today - days_back \<and> is_recurring tx = False) db)"
  have "set ?rows \<subseteq> set db" by auto
  then have "\<forall>x\<in>set ?rows. \<forall>y\<in>set ?rows. \<exists>b. are_transactions_similar L x y = Inr b"
    using assms similar_no_error by blast
  from group_loop_total [OF this, of "[]" "{}"] obtain gs where
    g: "group_similar_transactions L ?rows = Inr gs"
    unfolding group_similar_transactions_def by blast
  obtain ps where d: "detect_loop L gs (0, []) = Inr ps"
    using detect_loop_total by blast
  show ?thesis
    using g d by (simp add: detect_recurring_transactions_def Let_def)
qed

subsection \<open>Claim C9: patterns have three transactions and share none\<close>

lemma c9_sorted: "sort_key date (filter (\<lambda>tx. 70 - 365 \<le> date tx \<and> is_recurring tx = False) c9_db) = c9_db"
  by (simp add: c9_db_def plain_tx_def)

lemma c9_groups:
  "group_similar_transactions ascii_lib c9_db =
     Inr [[c9_db ! 0, c9_db ! 3, c9_db ! 6], [c9_db ! 1, c9_db ! 4, c9_db ! 7]]"
  by (simp add: group_similar_transactions_def c9_db_def min_occurrences_def
      are_transactions_similar_def ascii_lib_def plain_tx_def similarity_threshold_def
      amount_tolerance_def truthy_def ascii_lower_def Let_def)

lemma detect_frequency_30_30: "detect_frequency [30, 30] = Some (30, ''monthly'', 1)"
  by (simp add: detect_frequency_def frequency_patterns_def py_int_def Let_def)

lemma c9_group_analysis:
  assumes g: "g = [plain_tx i d a s, plain_tx i' (d + 30) a' s', plain_tx i'' (d + 60) a'' s'']"
  shows "\<exists>p. analyze_transaction_group ascii_lib k g = Inr (Some p) \<and> confidence p = 1 \<and>
    transactions p = [i, i', i'']"
proof -
  have srt: "sort_key date g = g"
    by (rule sort_key_id_if_sorted) (simp add: g plain_tx_def)
  have iv: "intervals_of g = [30, 30]"
    by (simp add: g intervals_of_def plain_tx_def upt_rec)
  have "3 \<le> length g" by (simp add: g)
  from analyze_Some [OF this, of ascii_lib k] obtain p where
    p: "analyze_transaction_group ascii_lib k g = Inr (Some p)"
    and df: "detect_frequency (intervals_of (sort_key date g)) =
        Some (frequency_days p, frequency_type p, confidence p)"
    and tr: "transactions p = map tx_id (sort_key date g)"
    by (elim exE conjE)
  from df have "confidence p = 1" unfolding srt iv detect_frequency_30_30 by simp
  moreover from tr have "transactions p = [i, i', i'']"
    unfolding srt by (simp add: g plain_tx_def)
  ultimately show ?thesis using p by blast
qed

lemma c9_detected:
  "\<exists>p1 p2. fst (detect_recurring_transactions ascii_lib 70 c9_db 365) = Inr [p1, p2] \<and>
     transactions p1 = [''s1'', ''s2'', ''s3''] \<and> transactions p2 = [''a1'', ''a2'', ''a3'']"
proof -
  let ?g1 = "[c9_db ! 0, c9_db ! 3, c9_db ! 6]"
  let ?g2 = "[c9_db ! 1, c9_db ! 4, c9_db ! 7]"
  have "?g1 = [plain_tx ''s1'' 0 (-20) ''Spotify'', plain_tx ''s2'' (0 + 30) (-20) ''Spotify'',
      plain_tx ''s3'' (0 + 60) (-20) ''Spotify'']"
    by (simp add: c9_db_def)
  from c9_group_analysis [OF this, of 0] obtain p1 where
    p1: "analyze_transaction_group ascii_lib 0 ?g1 = Inr (Some p1)" "confidence p1 = 1"
      "transactions p1 = [''s1'', ''s2'', ''s3'']"
    by (elim exE conjE)
  have "?g2 = [plain_tx ''a1'' 5 (-900) ''Aluguel'', plain_tx ''a2'' (5 + 30) (-900) ''Aluguel'',
      plain_tx ''a3'' (5 + 60) (-900) ''Aluguel'']"
    by (simp add: c9_db_def)
  from c9_group_analysis [OF this, of 1] obtain p2 where
    p2: "analyze_transaction_group ascii_lib (Suc 0) ?g2 = Inr (Some p2)" "confidence p2 = 1"
      "transactions p2 = [''a1'', ''a2'', ''a3'']"
    by (simp only: One_nat_def) (elim exE conjE)
  have loop: "detect_loop ascii_lib [?g1, ?g2] (0, []) = Inr [p1, p2]"
    using p1(1,2) p2(1,2) by (simp add: min_occurrences_def)
  have len: "\<not> length c9_db < min_occurrences"
    by (simp add: c9_db_def min_occurrences_def)
  have "fst (detect_recurring_transactions ascii_lib 70 c9_db 365) = Inr [p1, p2]"
    unfolding detect_recurring_transactions_def Let_def c9_sorted c9_groups
    using len loop p1(2) p2(2) by simp
  with p1(3) p2(3) show ?thesis by blast
qed

text \<open>
  C9. Whatever the transactions, the library and the dates, every pattern that the
  detection returns references at least three transaction identifiers, all different, so
  that a group of two similar transactions is never returned; and two patterns returned
  at different positions have no identifier in common. On a store whose amounts are all
  nonzero, as the data model requires, the detection does return a list of patterns.
\<close>

theorem C9_patterns_have_three_ids_and_are_disjoint:
  "(\<forall>patterns. fst (detect_recurring_transactions L today db days_back) = Inr patterns \<longrightarrow>
      (\<forall>p\<in>set patterns. 3 \<le> length (transactions p) \<and> distinct (transactions p)) \<and>
      (\<forall>i j. i < j \<and> j < length patterns \<longrightarrow>
         set (transactions (patterns ! i)) \<inter> set (transactions (patterns ! j)) = {})) \<and>
   ((\<forall>tx\<in>set db. amount tx \<noteq> 0) \<longrightarrow>
      (\<exists>patterns. fst (detect_recurring_transactions L today db days_back) = Inr patterns))"
proof (rule conjI)
  show "\<forall>patterns. fst (detect_recurring_transactions L today db days_back) = Inr patterns \<longrightarrow>
      (\<forall>p\<in>set patterns. 3 \<le> length (transactions p) \<and> distinct (transactions p)) \<and>
      (\<forall>i j. i < j \<and> j < length patterns \<longrightarrow>
         set (transactions (patterns ! i)) \<inter> set (transactions (patterns ! j)) = {})"
  proof (intro allI impI)
    fix patterns
    assume a: "fst (detect_recurring_transactions L today db days_back) = Inr patterns"
    note d = detected_patterns_disjoint [OF a]
    show "(\<forall>p\<in>set patterns. 3 \<le> length (transactions p) \<and> distinct (transactions p)) \<and>
      (\<forall>i j. i < j \<and> j < length patterns \<longrightarrow>
         set (transactions (patterns ! i)) \<inter> set (transactions (patterns ! j)) = {})"
      by (rule conjI [OF d [THEN conjunct1] d [THEN conjunct2, THEN conjunct2]])
  qed
  show "(\<forall>tx\<in>set db. amount tx \<noteq> 0) \<longrightarrow>
      (\<exists>patterns. fst (detect_recurring_transactions L today db days_back) = Inr patterns)"
    by (rule impI) (rule detect_total)
qed

theorem C9_patterns_have_three_ids_and_are_disjoint_witness:
  "\<exists>p1 p2. fst (detect_recurring_transactions ascii_lib 70 c9_db 365) = Inr [p1, p2] \<and>
     transactions p1 = [''s1'', ''s2'', ''s3''] \<and> transactions p2 = [''a1'', ''a2'', ''a3''] \<and>
     3 \<le> length (transactions p1) \<and> 3 \<le> length (transactions p2) \<and>
     set (transactions p1) \<inter> set (transactions p2) = {}"
proof -
  from c9_detected obtain p1 p2 where
    r: "fst (detect_recurring_transactions ascii_lib 70 c9_db 365) = Inr [p1, p2]"
    and t: "transactions p1 = [''s1'', ''s2'', ''s3'']" "transactions p2 = [''a1'', ''a2'', ''a3'']"
    by (elim exE conjE)
  from C9_patterns_have_three_ids_and_are_disjoint [of ascii_lib 70 c9_db 365, THEN conjunct1, rule_format, OF r]
  have a: "\<forall>p\<in>set [p1, p2]. 3 \<le> length (transactions p) \<and> distinct (transactions p)"
    and b: "\<forall>i j. i < j \<and> j < length [p1, p2] \<longrightarrow>
         set (transactions ([p1, p2] ! i)) \<inter> set (transactions ([p1, p2] ! j)) = {}"
    by simp_all
  from a have "3 \<le> length (transactions p1)" "3 \<le> length (transactions p2)" by simp_all
  moreover from b [rule_format, of 0 1]
  have "set (transactions p1) \<inter> set (transactions p2) = {}" by simp
  ultimately show ?thesis using r t by blast
qed

subsection \<open>Counting with a dictionary\<close>

lemma map_fst_count_into: "set (map fst (count_into d k)) = insert k (set (map fst d))"
proof (induction d)
  case Nil
  show ?case by simp
next
  case (Cons x d)
  obtain k' c where x: "x = (k', c)" by (cases x)
  show ?case
  proof (cases "k' = k")
    case True
    then show ?thesis using x by simp
  next
    case False
    then show ?thesis using x Cons.IH by (simp add: insert_commute)
  qed
qed

lemma keys_count_into: "fst ` set (count_into d k) = insert k (fst ` set d)"
  using map_fst_count_into [of d k] by simp

lemma distinct_count_into: "distinct (map fst d) \<Longrightarrow> distinct (map fst (count_into d k))"
proof (induction d)
  case Nil
  show ?case by simp
next
  case (Cons x d)
  obtain k' c where x: "x = (k', c)" by (cases x)
  show ?case
  proof (cases "k' = k")
    case True
    then show ?thesis using Cons.prems x by simp
  next
    case False
    have "k' \<notin> fst ` set (count_into d k)"
      using Cons.prems x False by (simp add: keys_count_into)
    then show ?thesis using Cons x False by simp
  qed
qed

lemma lookup_count_into:
  "lookup_count (count_into d k) k' = (if k' = k then lookup_count d k + 1 else lookup_count d k')"
  by (induction d) auto

lemma lookup_foldl_count_into:
  "lookup_count (foldl count_into d xs) k = lookup_count d k + count_list xs k"
  by (induction xs arbitrary: d) (auto simp: lookup_count_into)

lemma keys_foldl_count_into: "fst ` set (foldl count_into d xs) = fst ` set d \<union> set xs"
  by (induction xs arbitrary: d) (auto simp: keys_count_into)

lemma distinct_foldl_count_into:
  "distinct (map fst d) \<Longrightarrow> distinct (map fst (foldl count_into d xs))"
  by (induction xs arbitrary: d) (auto simp: distinct_count_into)

lemma lookup_count_all: "lookup_count (count_all xs) k = count_list xs k"
  by (simp add: count_all_def lookup_foldl_count_into)

lemma keys_count_all: "fst ` set (count_all xs) = set xs"
  by (simp add: count_all_def keys_foldl_count_into)

lemma distinct_count_all: "distinct (map fst (count_all xs))"
  by (simp add: count_all_def distinct_foldl_count_into)

lemma lookup_count_member:
  "distinct (map fst d) \<Longrightarrow> (k, c) \<in> set d \<Longrightarrow> lookup_count d k = c"
  by (induction d) (auto simp: rev_image_eqI)

lemma lookup_count_absent: "k \<notin> fst ` set d \<Longrightarrow> lookup_count d k = 0"
  by (induction d) auto

lemma count_all_member: "(k, c) \<in> set (count_all xs) \<Longrightarrow> c = count_list xs k"
  using lookup_count_member [OF distinct_count_all, of k c xs] by (simp add: lookup_count_all)

lemma max_item_max:
  "max_item best xs \<in> set (best # xs) \<and> (\<forall>x\<in>set (best # xs). snd x \<le> snd (max_item best xs))"
proof (induction xs arbitrary: best)
  case Nil
  show ?case by simp
next
  case (Cons x xs)
  show ?case
    using Cons.IH [of "if snd best < snd x then x else best"]
    by (auto split: if_splits)
qed

lemma max_by_count_most_frequent:
  assumes "max_by_count (count_all xs) = Inr c"
  shows "c \<in> set xs \<and> (\<forall>c'. count_list xs c' \<le> count_list xs c)"
proof -
  obtain y ys where d: "count_all xs = y # ys"
    using assms by (cases "count_all xs") (auto simp: max_by_count_def)
  let ?m = "max_item y ys"
  have c: "c = fst ?m" using assms d by (simp add: max_by_count_def)
  have mem: "?m \<in> set (count_all xs)"
    and mx: "\<forall>x\<in>set (count_all xs). snd x \<le> snd ?m"
    using max_item_max [of y ys] unfolding d by blast+
  have "(c, snd ?m) \<in> set (count_all xs)" using mem c by simp
  then have n: "snd ?m = count_list xs c" by (rule count_all_member)
  have "c \<in> fst ` set (count_all xs)" using mem c by (simp add: rev_image_eqI)
  then have cin: "c \<in> set xs" by (simp only: keys_count_all)
  have "count_list xs c' \<le> count_list xs c" for c'
  proof (cases "c' \<in> set xs")
    case True
    then have "c' \<in> fst ` set (count_all xs)" by (simp only: keys_count_all)
    then obtain n' where m': "(c', n') \<in> set (count_all xs)" by auto
    then have "n' = count_list xs c'" by (rule count_all_member)
    moreover have "n' \<le> snd ?m" using mx m' by fastforce
    ultimately show ?thesis using n by simp
  next
    case False
    then show ?thesis by (simp add: count_list_0_iff)
  qed
  with cin show ?thesis by blast
qed

subsection \<open>Claim C7: the category suggestion\<close>

lemma category_label_contributes: "contributes tx (category_label tx)"
  by (simp add: contributes_def category_label_def truthy_def split: option.splits)

lemma category_suggestion_most_frequent:
  assumes "3 \<le> length txs"
  shows "\<exists>p labels c. analyze_transaction_group L k txs = Inr (Some p) \<and>
    list_all2 contributes (sort_key date txs) labels \<and>
    category_suggestion p = Some c \<and> c \<in> set labels \<and>
    (\<forall>c'. count_list labels c' \<le> count_list labels c)"
proof -
  let ?txs = "sort_key date txs"
  let ?labels = "map category_label ?txs"
  from analyze_Some [OF assms, of L k] obtain p where
    p: "analyze_transaction_group L k txs = Inr (Some p)"
    and cs: "category_suggestion p =
      (case max_by_count (count_all ?labels) of Inr c \<Rightarrow> Some c | Inl e \<Rightarrow> None)"
    by (elim exE conjE)
  have "?labels \<noteq> []" using assms by (metis length_map length_sort list.size(3) not_numeral_le_zero)
  then have "count_all ?labels \<noteq> []" by (rule count_all_not_Nil)
  from max_by_count_Inr [OF this] obtain c where c: "max_by_count (count_all ?labels) = Inr c"
    by blast
  have "category_suggestion p = Some c" using cs c by simp
  moreover have "list_all2 contributes ?txs ?labels"
    by (simp add: list_all2_map2 list_all2_same category_label_contributes)
  moreover have "c \<in> set ?labels" and "\<forall>c'. count_list ?labels c' \<le> count_list ?labels c"
    using max_by_count_most_frequent [OF c] by blast+
  ultimately show ?thesis using p by blast
qed

lemma c5_group_sorted: "sort_key date c5_group = c5_group"
  by (rule sort_key_id_if_sorted) (simp add: c5_group_def plain_tx_def)

text \<open>
  C7, as amended. The pattern of a detected group suggests a label that occurs most often
  among the labels of its transactions, where a transaction that has a category gives its
  LLM category if it has one and otherwise the name of its category, and a transaction that
  has neither gives the default label \<open>Outros\<close>. The suggestion is never \<open>None\<close>.
\<close>

theorem C7_category_suggestion:
  assumes "3 \<le> length txs"
  shows "\<exists>p labels c. analyze_transaction_group L k txs = Inr (Some p) \<and>
    list_all2 contributes (sort_key date txs) labels \<and>
    category_suggestion p = Some c \<and> c \<in> set labels \<and>
    (\<forall>c'. count_list labels c' \<le> count_list labels c)"
  using assms by (rule category_suggestion_most_frequent)

theorem C7_category_suggestion_witness:
  "3 \<le> length c7_group \<and>
   (\<exists>p labels c. analyze_transaction_group ascii_lib 0 c7_group = Inr (Some p) \<and>
    list_all2 contributes (sort_key date c7_group) labels \<and>
    category_suggestion p = Some c \<and> c \<in> set labels \<and>
    (\<forall>c'. count_list labels c' \<le> count_list labels c))"
proof -
  have h: "3 \<le> length c7_group" by (simp add: c7_group_def)
  show ?thesis
    by (rule conjI [OF h C7_category_suggestion [OF h, of ascii_lib 0]])
qed

text \<open>
  C7 as it is worded fails on a group in which no transaction has a category or an LLM
  category: the suggestion is \<open>Outros\<close>, not \<open>None\<close>.
\<close>

theorem C7_counterexample:
  "list_all (\<lambda>tx. category tx = None \<and> llm_category tx = None) c5_group \<and>
   map_sum id (map_option category_suggestion) (analyze_transaction_group ascii_lib 0 c5_group)
     = Inr (Some (Some ''Outros''))"
proof -
  have h: "3 \<le> length c5_group" by (simp add: c5_group_length)
  from analyze_Some [OF h, of ascii_lib 0] obtain p where
    p: "analyze_transaction_group ascii_lib 0 c5_group = Inr (Some p)"
    and cs: "category_suggestion p =
      (case max_by_count (count_all (map category_label (sort_key date c5_group))) of
         Inr c \<Rightarrow> Some c | Inl e \<Rightarrow> None)"
    by (elim exE conjE)
  have "map category_label c5_group = [''Outros'', ''Outros'', ''Outros'']"
    by (simp add: c5_group_def plain_tx_def category_label_def)
  then have "category_suggestion p = Some ''Outros''"
    using cs unfolding c5_group_sorted by (simp add: count_all_def max_by_count_def)
  moreover have "list_all (\<lambda>tx. category tx = None \<and> llm_category tx = None) c5_group"
    by (simp add: c5_group_def plain_tx_def)
  ultimately show ?thesis using p by simp
qed

end
